theory Spec2Isabelle
  imports Main "HOL-Library.Sublist"
begin

section \<open>The browser state seen by css\_loader.js\<close>

text \<open>
  The script reads \<^verbatim>\<open>document.readyState\<close> and \<^verbatim>\<open>window.location.pathname\<close>,
  looks elements up by id in the whole document, appends link elements to
  \<^verbatim>\<open>document.head\<close> and writes to the console. An element carries the attributes the
  script sets; an attribute that was never set reads as the empty string, as in the DOM.
\<close>

datatype ready_state = Loading | Interactive | Complete

record element =
  el_tag :: string
  el_rel :: string
  el_type :: string
  el_href :: string
  el_id :: string

datatype js_error = Error string | TypeError string

datatype log_arg = S string | E js_error

datatype log_entry =
    ConsoleLog "log_arg list"
  | ConsoleWarn "log_arg list"
  | ConsoleError "log_arg list"

text \<open>
  \<open>head\<close> holds the children of the head section in document order, \<open>body\<close> every other
  element of the document (only their ids matter to the script).
\<close>

record browser =
  readyState :: ready_state
  pathname :: string
  head :: "element list"
  body :: "element list"
  console :: "log_entry list"

definition createElement :: "string \<Rightarrow> element" where
  "createElement t = \<lparr>el_tag = t, el_rel = [], el_type = [], el_href = [], el_id = []\<rparr>"

text \<open>
  \<^verbatim>\<open>document.getElementById\<close>: the first element whose ID is the argument. An element
  whose id attribute is empty has no ID, so the empty string finds nothing.
\<close>

definition getElementById :: "browser \<Rightarrow> string \<Rightarrow> element option" where
  "getElementById d i =
     (if i = [] then None else find (\<lambda>e. el_id e = i) (head d @ body d))"

definition appendChild :: "element \<Rightarrow> browser \<Rightarrow> browser" where
  "appendChild e d = d\<lparr>head := head d @ [e]\<rparr>"

definition console_log :: "log_arg list \<Rightarrow> browser \<Rightarrow> browser" where
  "console_log args d = d\<lparr>console := console d @ [ConsoleLog args]\<rparr>"

definition console_warn :: "log_arg list \<Rightarrow> browser \<Rightarrow> browser" where
  "console_warn args d = d\<lparr>console := console d @ [ConsoleWarn args]\<rparr>"

definition console_error :: "log_arg list \<Rightarrow> browser \<Rightarrow> browser" where
  "console_error args d = d\<lparr>console := console d @ [ConsoleError args]\<rparr>"

text \<open>
  An optional string argument is \<open>None\<close> when the caller leaves it out. JavaScript's
  truthiness test \<^verbatim>\<open>if (id)\<close> fails for \<^verbatim>\<open>undefined\<close> and for the empty string.
\<close>

fun truthy :: "string option \<Rightarrow> bool" where
  "truthy None = False"
| "truthy (Some s) = (s \<noteq> [])"

section \<open>Promises and async functions\<close>

text \<open>
  The platform reports the fate of an inserted link element by one of two events. A
  computation that awaits a pending promise is suspended; it goes on when the event
  arrives, on the browser state of that moment. \<open>Suspend k h d\<close> is a computation that
  has left the state \<open>d\<close> behind and waits on the element at position \<open>k\<close> of the head,
  \<open>h\<close> being what it does on each event. \<open>Done\<close> is a fulfilled promise and \<open>Raise\<close> a
  rejected one (or a thrown exception). An await on a promise that is already settled
  resumes in a later microtask of the same single thread; no code of the script runs in
  between, so the continuation is applied at once. A promise on which no event ever
  arrives stays suspended for ever: the script sets no timeout.
\<close>

datatype event = LoadEv | ErrorEv

datatype 'a step =
    Done 'a browser
  | Raise js_error browser
  | Suspend nat "event \<Rightarrow> browser \<Rightarrow> 'a step" browser

text \<open>\<^verbatim>\<open>x = await p; k(x)\<close>: a rejection of \<open>p\<close> is thrown at the await.\<close>

primrec await :: "'a step \<Rightarrow> ('a \<Rightarrow> browser \<Rightarrow> 'b step) \<Rightarrow> 'b step" where
  "await (Done a d) k = k a d"
| "await (Raise e d) k = Raise e d"
| "await (Suspend n h d) k = Suspend n (\<lambda>ev d'. await (h ev d') k) d"

text \<open>\<^verbatim>\<open>try { p } catch (error) { g(error) }\<close>\<close>

primrec try_catch :: "'a step \<Rightarrow> (js_error \<Rightarrow> browser \<Rightarrow> 'a step) \<Rightarrow> 'a step" where
  "try_catch (Done a d) g = Done a d"
| "try_catch (Raise e d) g = g e d"
| "try_catch (Suspend n h d) g = Suspend n (\<lambda>ev d'. try_catch (h ev d') g) d"

text \<open>
  The platform delivers one event for each element the computation waits on, in turn;
  when the events run out the computation stays where it is.
\<close>

fun run :: "'a step \<Rightarrow> event list \<Rightarrow> 'a step" where
  "run (Suspend n h d) (ev # evs) = run (h ev d) evs"
| "run s evs = s"

primrec state_of :: "'a step \<Rightarrow> browser" where
  "state_of (Done a d) = d"
| "state_of (Raise e d) = d"
| "state_of (Suspend n h d) = d"

primrec is_Done :: "'a step \<Rightarrow> bool" where
  "is_Done (Done a d) = True"
| "is_Done (Raise e d) = False"
| "is_Done (Suspend n h d) = False"

primrec is_Raise :: "'a step \<Rightarrow> bool" where
  "is_Raise (Done a d) = False"
| "is_Raise (Raise e d) = True"
| "is_Raise (Suspend n h d) = False"

primrec is_Suspend :: "'a step \<Rightarrow> bool" where
  "is_Suspend (Done a d) = False"
| "is_Suspend (Raise e d) = False"
| "is_Suspend (Suspend n h d) = True"

primrec raised :: "'a step \<Rightarrow> js_error option" where
  "raised (Done a d) = None"
| "raised (Raise e d) = Some e"
| "raised (Suspend n h d) = None"

primrec waits_on :: "'a step \<Rightarrow> nat option" where
  "waits_on (Done a d) = None"
| "waits_on (Raise e d) = None"
| "waits_on (Suspend n h d) = Some n"

text \<open>The events that are left over once a computation has settled.\<close>

fun unused :: "'a step \<Rightarrow> event list \<Rightarrow> event list" where
  "unused (Suspend n h d) (ev # evs) = unused (h ev d) evs"
| "unused s evs = evs"

text \<open>
  Three properties of everything a computation may still do, whatever events arrive and
  whatever state it is resumed on: \<open>safe\<close>, it never ends in a rejection; \<open>within s m\<close>,
  it settles after at most \<open>m\<close> events; \<open>always P\<close>, it keeps an invariant \<open>P\<close> of the
  browser state, as long as the state it is resumed on satisfies \<open>P\<close>.
\<close>

primrec safe :: "'a step \<Rightarrow> bool" where
  "safe (Done a d) = True"
| "safe (Raise e d) = False"
| "safe (Suspend n h d) = (\<forall>ev d'. safe (h ev d'))"

primrec within :: "'a step \<Rightarrow> nat \<Rightarrow> bool" where
  "within (Done a d) m = True"
| "within (Raise e d) m = True"
| "within (Suspend n h d) m =
     (case m of 0 \<Rightarrow> False | Suc m' \<Rightarrow> \<forall>ev d'. within (h ev d') m')"

primrec always :: "(browser \<Rightarrow> bool) \<Rightarrow> 'a step \<Rightarrow> bool" where
  "always P (Done a d) = P d"
| "always P (Raise e d) = P d"
| "always P (Suspend n h d) = (P d \<and> (\<forall>ev d'. P d' \<longrightarrow> always P (h ev d')))"

section \<open>loadCSS\<close>

text \<open>
  The promise executor runs at once: the id check, the creation of the link element with
  its attributes and handlers, and \<^verbatim>\<open>document.head.appendChild\<close> all happen before
  \<open>loadCSS\<close> returns. The two handlers are the continuation of the suspended promise.
\<close>

definition new_link :: "string \<Rightarrow> string option \<Rightarrow> element" where
  "new_link cssPath id' =
     (let link = createElement ''link'';
          link = link\<lparr>el_rel := ''stylesheet''\<rparr>;
          link = link\<lparr>el_type := ''text/css''\<rparr>;
          link = link\<lparr>el_href := cssPath\<rparr>
      in case id' of
           None \<Rightarrow> link
         | Some i \<Rightarrow> if truthy id' then link\<lparr>el_id := i\<rparr> else link)"

definition onload :: "string \<Rightarrow> browser \<Rightarrow> unit step" where
  "onload cssPath d = Done () (console_log [S ''CSS loaded successfully:'', S cssPath] d)"

definition onerror :: "string \<Rightarrow> browser \<Rightarrow> unit step" where
  "onerror cssPath d =
     Raise (Error (''Failed to load CSS: '' @ cssPath))
       (console_warn [S ''Failed to load CSS:'', S cssPath] d)"

definition already_loaded :: "string option \<Rightarrow> browser \<Rightarrow> bool" where
  "already_loaded id' d =
     (case id' of
        None \<Rightarrow> False
      | Some i \<Rightarrow> truthy id' \<and> getElementById d i \<noteq> None)"

definition loadCSS :: "string \<Rightarrow> string option \<Rightarrow> browser \<Rightarrow> unit step" where
  "loadCSS cssPath id' d =
     (if already_loaded id' d then Done () d
      else Suspend (length (head d))
             (\<lambda>ev. case ev of LoadEv \<Rightarrow> onload cssPath | ErrorEv \<Rightarrow> onerror cssPath)
             (appendChild (new_link cssPath id') d))"

section \<open>Strings\<close>

text \<open>
  \<^verbatim>\<open>s.split(c)\<close> for a one-character separator: the pieces between the separators, in
  order; the result of \<^verbatim>\<open>split\<close> is never empty (\<^verbatim>\<open>"".split("/")\<close> is \<^verbatim>\<open>[""]\<close>).
\<close>

fun js_split :: "char \<Rightarrow> string \<Rightarrow> string list" where
  "js_split c [] = [[]]"
| "js_split c (x # xs) =
     (if x = c then [] # js_split c xs
      else case js_split c xs of
             [] \<Rightarrow> [[x]]
           | seg # segs \<Rightarrow> (x # seg) # segs)"

text \<open>\<^verbatim>\<open>xs.pop()\<close>: the last element, \<^verbatim>\<open>undefined\<close> on an empty array.\<close>

definition js_pop :: "'a list \<Rightarrow> 'a option" where
  "js_pop xs = (if xs = [] then None else Some (last xs))"

text \<open>
  \<^verbatim>\<open>s.replace(pat, rep)\<close> with a string pattern: the first occurrence of \<open>pat\<close> in \<open>s\<close>
  is replaced, the rest of \<open>s\<close> is kept. (The replacement the script passes is empty, so
  the \<^verbatim>\<open>$\<close> patterns of a replacement string play no part.)
\<close>

fun js_replace :: "string \<Rightarrow> string \<Rightarrow> string \<Rightarrow> string" where
  "js_replace pat rep [] = (if pat = [] then rep else [])"
| "js_replace pat rep (x # xs) =
     (if prefix pat (x # xs) then rep @ drop (length pat) (x # xs)
      else x # js_replace pat rep xs)"

text \<open>The decimal digits of a loop index inside a template literal.\<close>

fun string_of_nat :: "nat \<Rightarrow> string" where
  "string_of_nat n =
     (if n < 10 then [''0123456789'' ! n]
      else string_of_nat (n div 10) @ [''0123456789'' ! (n mod 10)])"

declare string_of_nat.simps [simp del]

section \<open>autoLoadPageCSS\<close>

definition pageName_of :: "string \<Rightarrow> string option" where
  "pageName_of path =
     (case js_pop (js_split CHR ''/'' path) of
        None \<Rightarrow> None
      | Some seg \<Rightarrow> Some (js_replace ''.html'' [] seg))"

text \<open>
  The page name is computed before the \<^verbatim>\<open>try\<close>: \<^verbatim>\<open>undefined.replace\<close> would throw a
  TypeError out of the function. Inside the \<^verbatim>\<open>try\<close> are the awaited load and the log
  line after it.
\<close>

definition autoLoadPageCSS :: "browser \<Rightarrow> unit step" where
  "autoLoadPageCSS d =
     (let path = pathname d in
      case pageName_of path of
        None \<Rightarrow> Raise (TypeError ''Cannot read properties of undefined'') d
      | Some pageName \<Rightarrow>
          if pageName \<noteq> [] then
            let cssPath = ''./'' @ pageName @ ''.css'' in
            try_catch
              (await (loadCSS cssPath (Some (''page-css-'' @ pageName)) d)
                 (\<lambda>_ d'. Done ()
                    (console_log [S (''Page-specific CSS loaded for: '' @ pageName)] d')))
              (\<lambda>error d'. Done ()
                 (console_log [S (''No page-specific CSS found for: '' @ pageName)] d'))
          else Done () d)"

section \<open>loadGenericCSS\<close>

definition commonCSSFiles :: "string list" where
  "commonCSSFiles = [''style.css'']"

text \<open>
  One turn of the \<^verbatim>\<open>for\<close> loop ends in \<^verbatim>\<open>break\<close> or \<^verbatim>\<open>continue\<close>. The loop is written
  over the files from index \<open>i\<close> on, so that it reads the same for any list of candidates.
\<close>

datatype loop_exit = Break | Continue

definition generic_body :: "string \<Rightarrow> nat \<Rightarrow> browser \<Rightarrow> loop_exit step" where
  "generic_body cssFile i d =
     try_catch
       (await (loadCSS (''./'' @ cssFile) (Some (''generic-css-'' @ string_of_nat i)) d)
          (\<lambda>_ d'. Done Break (console_log [S (''Generic CSS loaded: '' @ cssFile)] d')))
       (\<lambda>error d'. Done Continue d')"

primrec generic_loop :: "string list \<Rightarrow> nat \<Rightarrow> browser \<Rightarrow> unit step" where
  "generic_loop [] i d = Done () d"
| "generic_loop (cssFile # rest) i d =
     await (generic_body cssFile i d)
       (\<lambda>x d'. case x of Break \<Rightarrow> Done () d' | Continue \<Rightarrow> generic_loop rest (Suc i) d')"

definition loadGenericCSS :: "browser \<Rightarrow> unit step" where
  "loadGenericCSS d = generic_loop commonCSSFiles 0 d"

section \<open>init\<close>

definition loadAllCSS :: "browser \<Rightarrow> unit step" where
  "loadAllCSS d =
     try_catch
       (await (loadGenericCSS d)
          (\<lambda>_ d1. await (autoLoadPageCSS d1)
             (\<lambda>_ d2. Done () (console_log [S ''CSS loading complete''] d2))))
       (\<lambda>error d'. Done () (console_error [S ''Error during CSS loading:'', E error] d'))"

text \<open>
  The page with the script running in it: the browser state, the number of
  \<^verbatim>\<open>loadAllCSS\<close> closures registered for \<^verbatim>\<open>DOMContentLoaded\<close> (they all behave alike),
  the suspended computations with the element each waits on, and the rejections that no
  handler took.
\<close>

record page =
  doc :: browser
  listeners :: nat
  tasks :: "(nat \<times> (event \<Rightarrow> browser \<Rightarrow> unit step)) list"
  unhandled :: "js_error list"

text \<open>Calling an async function and dropping its promise.\<close>

primrec start :: "unit step \<Rightarrow> page \<Rightarrow> page" where
  "start (Done a d) p = p\<lparr>doc := d\<rparr>"
| "start (Raise e d) p = p\<lparr>doc := d, unhandled := unhandled p @ [e]\<rparr>"
| "start (Suspend n h d) p = p\<lparr>doc := d, tasks := tasks p @ [(n, h)]\<rparr>"

definition init :: "page \<Rightarrow> page" where
  "init p =
     (if readyState (doc p) = Loading then p\<lparr>listeners := Suc (listeners p)\<rparr>
      else start (loadAllCSS (doc p)) p)"

text \<open>
  What the platform does to the page. \<open>DOMContentLoaded\<close> fires once, when parsing ends:
  the readiness becomes interactive and every registered listener is called. A load or
  error event on the head's element \<open>k\<close> resumes the computations that wait on it.
\<close>

datatype platform_event = DOMContentLoaded | LinkEvent nat event

definition call_listener :: "page \<Rightarrow> page" where
  "call_listener p = start (loadAllCSS (doc p)) p"

definition resume :: "event \<Rightarrow> page \<Rightarrow> (nat \<times> (event \<Rightarrow> browser \<Rightarrow> unit step)) \<Rightarrow> page" where
  "resume ev p t = start (snd t ev (doc p)) p"

fun deliver :: "platform_event \<Rightarrow> page \<Rightarrow> page" where
  "deliver DOMContentLoaded p =
     (if readyState (doc p) = Loading
      then (call_listener ^^ listeners p) (p\<lparr>doc := (doc p)\<lparr>readyState := Interactive\<rparr>\<rparr>)
      else p)"
| "deliver (LinkEvent k ev) p =
     foldl (resume ev) (p\<lparr>tasks := filter (\<lambda>t. fst t \<noteq> k) (tasks p)\<rparr>)
       (filter (\<lambda>t. fst t = k) (tasks p))"

text \<open>The platform settles the element that the oldest suspended computation waits on.\<close>

fun settle :: "event list \<Rightarrow> page \<Rightarrow> page" where
  "settle [] p = p"
| "settle (ev # evs) p =
     (case tasks p of
        [] \<Rightarrow> p
      | t # ts \<Rightarrow> settle evs (deliver (LinkEvent (fst t) ev) p))"

section \<open>Vocabulary of the properties\<close>

text \<open>The elements of the document that carry a given id attribute.\<close>

definition elements_with_id :: "string \<Rightarrow> browser \<Rightarrow> element list" where
  "elements_with_id i d = filter (\<lambda>e. el_id e = i) (head d @ body d)"

text \<open>
  \<open>extends d0 d\<close>: the state \<open>d\<close> has everything \<open>d0\<close> had, unchanged and in place; the
  head and the console may have grown at their ends.
\<close>

definition extends :: "browser \<Rightarrow> browser \<Rightarrow> bool" where
  "extends d0 d \<longleftrightarrow>
     prefix (head d0) (head d) \<and> body d = body d0 \<and> readyState d = readyState d0 \<and>
     pathname d = pathname d0 \<and> prefix (console d0) (console d)"

text \<open>
  \<open>resume_with s ev d'\<close>: the event \<open>ev\<close> reaches the suspended computation \<open>s\<close> when the
  browser state has become \<open>d'\<close> (other scripts may have changed it since \<open>s\<close> was
  suspended). \<open>only_appends s\<close>: whenever and on whatever state \<open>s\<close> is resumed, now or
  later, the state it leaves extends the state it was resumed on.
\<close>

primrec resume_with :: "'a step \<Rightarrow> event \<Rightarrow> browser \<Rightarrow> 'a step" where
  "resume_with (Done a d) ev d' = Done a d"
| "resume_with (Raise e d) ev d' = Raise e d"
| "resume_with (Suspend n h d) ev d' = h ev d'"

primrec only_appends :: "'a step \<Rightarrow> bool" where
  "only_appends (Done a d) = True"
| "only_appends (Raise e d) = True"
| "only_appends (Suspend n h d) =
     (\<forall>ev d'. extends d' (state_of (h ev d')) \<and> only_appends (h ev d'))"

text \<open>A fully loaded document at a given path, with nothing in it yet.\<close>

definition blank :: "string \<Rightarrow> browser" where
  "blank path = \<lparr>readyState = Complete, pathname = path, head = [], body = [], console = []\<rparr>"

text \<open>
  The page name in the words of the specification: the last path segment, with a
  \<^verbatim>\<open>.html\<close> suffix stripped if present.
\<close>

definition strip_html_suffix :: "string \<Rightarrow> string" where
  "strip_html_suffix seg =
     (if suffix ''.html'' seg then take (length seg - length ''.html'') seg else seg)"

text \<open>The id and the link element that \<open>loadGenericCSS\<close> gives the candidate at index \<open>i\<close>.\<close>

definition generic_id :: "nat \<Rightarrow> string" where
  "generic_id i = ''generic-css-'' @ string_of_nat i"

definition generic_link :: "string \<Rightarrow> nat \<Rightarrow> element" where
  "generic_link cssFile i = new_link (''./'' @ cssFile) (Some (generic_id i))"

text \<open>The platform's events on a page, one after the other.\<close>

definition platform :: "platform_event list \<Rightarrow> page \<Rightarrow> page" where
  "platform pes p = fold deliver pes p"

text \<open>No suspended computation of the page can end in a rejection.\<close>

definition safe_tasks :: "page \<Rightarrow> bool" where
  "safe_tasks p \<longleftrightarrow> list_all (\<lambda>t. \<forall>ev d. safe (snd t ev d)) (tasks p)"

text \<open>A page on which no script has run yet.\<close>

definition fresh_page :: "browser \<Rightarrow> page" where
  "fresh_page d = \<lparr>doc = d, listeners = 0, tasks = [], unhandled = []\<rparr>"

section \<open>Laws of await, try/catch and event delivery\<close>

lemma step_induct [case_names Done Raise Suspend]:
  assumes "\<And>a d. P (Done a d)"
    and "\<And>e d. P (Raise e d)"
    and "\<And>n h d. (\<And>ev d'. P (h ev d')) \<Longrightarrow> P (Suspend n h d)"
  shows "P s"
proof (induction s)
  case (Done a d)
  show ?case by (rule assms(1))
next
  case (Raise e d)
  show ?case by (rule assms(2))
next
  case (Suspend n h d)
  show ?case
  proof (rule assms(3))
    fix ev d'
    show "P (h ev d')" by (rule Suspend.IH) (rule rangeI)+
  qed
qed

lemma run_await:
  "run (await s k) evs =
     (case run s evs of
        Done a d \<Rightarrow> run (k a d) (unused s evs)
      | Raise e d \<Rightarrow> Raise e d
      | Suspend n h d \<Rightarrow> Suspend n (\<lambda>ev d'. await (h ev d') k) d)"
proof (induction s arbitrary: evs rule: step_induct)
  case (Suspend n h d)
  then show ?case by (cases evs) (simp_all split: step.splits)
qed simp_all

lemma run_try_catch:
  "run (try_catch s g) evs =
     (case run s evs of
        Done a d \<Rightarrow> Done a d
      | Raise e d \<Rightarrow> run (g e d) (unused s evs)
      | Suspend n h d \<Rightarrow> Suspend n (\<lambda>ev d'. try_catch (h ev d') g) d)"
  by (induction s evs rule: run.induct) (simp_all split: step.splits)

lemma safe_await: "safe s \<Longrightarrow> (\<And>a d. safe (k a d)) \<Longrightarrow> safe (await s k)"
  by (induction s rule: step_induct) auto

lemma safe_try_catch: "(\<And>e d. safe (g e d)) \<Longrightarrow> safe (try_catch s g)"
  by (induction s rule: step_induct) auto

lemma safe_run: "safe s \<Longrightarrow> safe (run s evs)"
  by (induction s evs rule: run.induct) auto

lemma safe_not_Raise: "safe s \<Longrightarrow> \<not> is_Raise s"
  by (cases s) auto

lemma within_mono: "within s m \<Longrightarrow> m \<le> m' \<Longrightarrow> within s m'"
proof (induction s arbitrary: m m' rule: step_induct)
  case (Suspend n h d)
  from Suspend.prems obtain j where m: "m = Suc j" and h: "\<And>ev d'. within (h ev d') j"
    by (cases m) auto
  from Suspend.prems m obtain j' where m': "m' = Suc j'" and le: "j \<le> j'"
    by (cases m') auto
  show ?case using Suspend.IH [OF h le] by (simp add: m')
qed simp_all

lemma within_await:
  "within s m \<Longrightarrow> (\<And>a d. within (k a d) m') \<Longrightarrow> within (await s k) (m + m')"
proof (induction s arbitrary: m rule: step_induct)
  case (Done a d)
  have "within (k a d) m'" by (rule Done.prems(2))
  then show ?case by (simp add: within_mono)
next
  case (Raise e d)
  then show ?case by simp
next
  case (Suspend n h d)
  from Suspend.prems obtain j where m: "m = Suc j" and h: "\<And>ev d'. within (h ev d') j"
    by (cases m) auto
  show ?case using Suspend.IH [OF h Suspend.prems(2)] by (simp add: m)
qed

lemma within_try_catch:
  "within s m \<Longrightarrow> (\<And>e d. within (g e d) m') \<Longrightarrow> within (try_catch s g) (m + m')"
proof (induction s arbitrary: m rule: step_induct)
  case (Done a d)
  then show ?case by simp
next
  case (Raise e d)
  have "within (g e d) m'" by (rule Raise.prems(2))
  then show ?case by (simp add: within_mono)
next
  case (Suspend n h d)
  from Suspend.prems obtain j where m: "m = Suc j" and h: "\<And>ev d'. within (h ev d') j"
    by (cases m) auto
  show ?case using Suspend.IH [OF h Suspend.prems(2)] by (simp add: m)
qed

lemma within_run: "within s m \<Longrightarrow> m \<le> length evs \<Longrightarrow> \<not> is_Suspend (run s evs)"
proof (induction s arbitrary: m evs rule: step_induct)
  case (Suspend n h d)
  from Suspend.prems obtain j where m: "m = Suc j" and h: "\<And>ev d'. within (h ev d') j"
    by (cases m) auto
  from Suspend.prems m obtain ev evs' where evs: "evs = ev # evs'" and le: "j \<le> length evs'"
    by (cases evs) auto
  show ?case using Suspend.IH [OF h le] by (simp add: evs)
qed simp_all

lemma always_await:
  "always P s \<Longrightarrow> (\<And>a d. P d \<Longrightarrow> always P (k a d)) \<Longrightarrow> always P (await s k)"
  by (induction s rule: step_induct) auto

lemma always_try_catch:
  "always P s \<Longrightarrow> (\<And>e d. P d \<Longrightarrow> always P (g e d)) \<Longrightarrow> always P (try_catch s g)"
  by (induction s rule: step_induct) auto

lemma always_now: "always P s \<Longrightarrow> P (state_of s)"
  by (cases s) auto

lemma always_run: "always P s \<Longrightarrow> always P (run s evs)"
  by (induction s evs rule: run.induct) auto

section \<open>Facts about loadCSS\<close>

lemma run_loadCSS:
  "run (loadCSS p i d) evs =
     (if already_loaded i d then Done () d
      else case evs of
             [] \<Rightarrow> loadCSS p i d
           | LoadEv # _ \<Rightarrow> onload p (appendChild (new_link p i) d)
           | ErrorEv # _ \<Rightarrow> onerror p (appendChild (new_link p i) d))"
  by (simp add: loadCSS_def onload_def onerror_def split: list.splits event.splits)

lemma state_of_loadCSS:
  "state_of (loadCSS p i d) = (if already_loaded i d then d else appendChild (new_link p i) d)"
  by (simp add: loadCSS_def)

lemma head_run_loadCSS:
  "head (state_of (run (loadCSS p i d) evs)) =
     (if already_loaded i d then head d else head d @ [new_link p i])"
  by (simp add: run_loadCSS state_of_loadCSS onload_def onerror_def appendChild_def
      console_log_def console_warn_def split: list.splits event.splits)

lemma body_run_loadCSS: "body (state_of (run (loadCSS p i d) evs)) = body d"
  by (simp add: run_loadCSS state_of_loadCSS onload_def onerror_def appendChild_def
      console_log_def console_warn_def split: list.splits event.splits)

lemma getElementById_None_iff:
  "i \<noteq> [] \<Longrightarrow> getElementById d i = None \<longleftrightarrow> elements_with_id i d = []"
  by (auto simp: getElementById_def elements_with_id_def find_None_iff filter_empty_conv)

lemma el_id_new_link: "el_id (new_link p (Some i)) = i"
  by (cases "i = []") (simp_all add: new_link_def createElement_def)

lemma already_loaded_Some:
  "i \<noteq> [] \<Longrightarrow> already_loaded (Some i) d \<longleftrightarrow> getElementById d i \<noteq> None"
  by (simp add: already_loaded_def)

text \<open>
  Claim C7. A call of \<open>loadCSS\<close> that is not cut short by an existing id appends the link
  element and stays pending on it; on the element's load event the promise is fulfilled,
  on its error event it is rejected with the Error \<^verbatim>\<open>Failed to load CSS: <path>\<close>.
\<close>

theorem loadCSS_settles_as_reported:
  "\<not> already_loaded id' d \<Longrightarrow>
     waits_on (loadCSS cssPath id' d) = Some (length (head d)) \<and>
     state_of (loadCSS cssPath id' d) = appendChild (new_link cssPath id') d \<and>
     run (loadCSS cssPath id' d) (LoadEv # evs) =
       Done () (console_log [S ''CSS loaded successfully:'', S cssPath]
                  (appendChild (new_link cssPath id') d)) \<and>
     run (loadCSS cssPath id' d) (ErrorEv # evs) =
       Raise (Error (''Failed to load CSS: '' @ cssPath))
         (console_warn [S ''Failed to load CSS:'', S cssPath]
            (appendChild (new_link cssPath id') d))"
  by (simp add: loadCSS_def onload_def onerror_def)

text \<open>Witness for C7: a stylesheet with id \<^verbatim>\<open>theme\<close> requested on an empty document.\<close>

theorem loadCSS_settles_as_reported_witness:
  "\<not> already_loaded (Some ''theme'') (blank ''/index.html'') \<and>
   waits_on (loadCSS ''./missing.css'' (Some ''theme'') (blank ''/index.html'')) = Some 0 \<and>
   is_Done (run (loadCSS ''./missing.css'' (Some ''theme'') (blank ''/index.html'')) [LoadEv]) \<and>
   raised (run (loadCSS ''./missing.css'' (Some ''theme'') (blank ''/index.html'')) [ErrorEv]) =
     Some (Error ''Failed to load CSS: ./missing.css'')"
proof -
  have h: "\<not> already_loaded (Some ''theme'') (blank ''/index.html'')"
    by (simp add: already_loaded_def getElementById_def blank_def)
  show ?thesis
    using h loadCSS_settles_as_reported [OF h, of "''./missing.css''" "[]"]
    by (simp add: blank_def)
qed

text \<open>
  Claim C10. Called without an id, \<open>loadCSS\<close> never resolves at once: in every state it
  appends a new link element without id and waits on it, and a second call with the same
  path (after any events) appends a second element with the same href.
\<close>

theorem loadCSS_without_id_always_appends:
  "is_Suspend (loadCSS cssPath None d) \<and>
   head (state_of (loadCSS cssPath None d)) =
     head d @ [\<lparr>el_tag = ''link'', el_rel = ''stylesheet'', el_type = ''text/css'',
                el_href = cssPath, el_id = []\<rparr>] \<and>
   head (state_of (loadCSS cssPath None (state_of (run (loadCSS cssPath None d) evs)))) =
     head d @ [new_link cssPath None, new_link cssPath None]"
proof -
  have never: "\<not> already_loaded None d'" for d'
    by (simp add: already_loaded_def)
  have "is_Suspend (loadCSS cssPath None d)"
    by (simp add: loadCSS_def never)
  moreover have "head (state_of (loadCSS cssPath None d')) = head d' @ [new_link cssPath None]" for d'
    by (simp add: state_of_loadCSS never appendChild_def)
  moreover have "head (state_of (run (loadCSS cssPath None d) evs)) = head d @ [new_link cssPath None]"
    by (simp add: head_run_loadCSS never)
  moreover have "new_link cssPath None =
      \<lparr>el_tag = ''link'', el_rel = ''stylesheet'', el_type = ''text/css'',
        el_href = cssPath, el_id = []\<rparr>"
    by (simp add: new_link_def createElement_def)
  ultimately show ?thesis by simp
qed

text \<open>
  Claim C1 as stated fails for the empty string: it is a string the caller may pass as
  id, the truthiness test treats it as no id, and two calls append two elements, so the
  elements whose id is the one passed are not exactly one. (Nor are they exactly one when
  the document came with two elements of the same id: two calls leave both.)
\<close>

theorem load_twice_counterexample:
  "is_Suspend
     (loadCSS ''a.css'' (Some []) (state_of (loadCSS ''a.css'' (Some []) (blank ''/'')))) \<and>
   length (head (state_of
     (loadCSS ''a.css'' (Some []) (state_of (loadCSS ''a.css'' (Some []) (blank ''/'')))))) = 2 \<and>
   length (elements_with_id []
     (state_of (loadCSS ''a.css'' (Some []) (state_of (loadCSS ''a.css'' (Some []) (blank ''/'')))))) \<noteq> 1 \<and>
   length (elements_with_id ''theme''
     (state_of (loadCSS ''a.css'' (Some ''theme'') (state_of (loadCSS ''a.css'' (Some ''theme'')
        ((blank ''/'')\<lparr>body := [(createElement ''div'')\<lparr>el_id := ''theme''\<rparr>,
                                 (createElement ''span'')\<lparr>el_id := ''theme''\<rparr>]\<rparr>)))))) \<noteq> 1"
  by (simp add: loadCSS_def already_loaded_def getElementById_def blank_def appendChild_def
      new_link_def createElement_def elements_with_id_def)

text \<open>
  Claim C1, amended. For every non-empty id: a call made while an element with that id
  exists resolves at once and changes nothing; of two calls with the same id (whatever
  events arrive in between) the second resolves at once and changes nothing, and the first
  has appended one link element if no element had the id and none otherwise; afterwards
  the number of elements with that id is the larger of one and the number there was
  before, so exactly one when the document had at most one.
\<close>

theorem load_same_id_once:
  assumes "i \<noteq> []"
  shows "(getElementById d i \<noteq> None \<longrightarrow> loadCSS p (Some i) d = Done () d) \<and>
    loadCSS p' (Some i) (state_of (run (loadCSS p (Some i) d) evs)) =
      Done () (state_of (run (loadCSS p (Some i) d) evs)) \<and>
    head (state_of (run (loadCSS p (Some i) d) evs)) =
      head d @ (if getElementById d i = None then [new_link p (Some i)] else []) \<and>
    body (state_of (run (loadCSS p (Some i) d) evs)) = body d \<and>
    length (elements_with_id i (state_of (run (loadCSS p (Some i) d) evs))) =
      max 1 (length (elements_with_id i d))"
proof -
  let ?d1 = "state_of (run (loadCSS p (Some i) d) evs)"
  have hd: "head ?d1 = head d @ (if getElementById d i = None then [new_link p (Some i)] else [])"
    using assms by (simp add: head_run_loadCSS already_loaded_Some)
  have bd: "body ?d1 = body d" by (rule body_run_loadCSS)
  have ew: "elements_with_id i ?d1 =
      filter (\<lambda>e. el_id e = i) (head d) @
      (if getElementById d i = None then [new_link p (Some i)] else []) @
      filter (\<lambda>e. el_id e = i) (body d)"
    by (simp add: elements_with_id_def hd bd el_id_new_link)
  have cnt: "length (elements_with_id i ?d1) = max 1 (length (elements_with_id i d))"
  proof (cases "getElementById d i = None")
    case True
    with assms have "elements_with_id i d = []" by (simp add: getElementById_None_iff)
    moreover from this have "filter (\<lambda>e. el_id e = i) (head d) = []"
      and "filter (\<lambda>e. el_id e = i) (body d) = []"
      by (simp_all add: elements_with_id_def)
    ultimately show ?thesis using True by (simp add: ew)
  next
    case False
    with assms have "elements_with_id i d \<noteq> []" by (simp add: getElementById_None_iff)
    then have "1 \<le> length (elements_with_id i d)" by (cases "elements_with_id i d") simp_all
    moreover have "elements_with_id i ?d1 = elements_with_id i d"
      using False by (simp add: ew) (simp add: elements_with_id_def)
    ultimately show ?thesis by simp
  qed
  have "elements_with_id i ?d1 \<noteq> []"
    using cnt by (cases "elements_with_id i ?d1") simp_all
  with assms have "getElementById ?d1 i \<noteq> None" by (simp add: getElementById_None_iff)
  with assms have again: "loadCSS p' (Some i) ?d1 = Done () ?d1"
    by (simp add: loadCSS_def already_loaded_Some)
  have first: "getElementById d i \<noteq> None \<longrightarrow> loadCSS p (Some i) d = Done () d"
    using assms by (simp add: loadCSS_def already_loaded_Some)
  from first again hd bd cnt show ?thesis by blast
qed

text \<open>Witness for C1: two loads with id \<^verbatim>\<open>theme\<close>, the first of which fails.\<close>

theorem load_same_id_once_witness:
  "''theme'' \<noteq> [] \<and>
   loadCSS ''./b.css'' (Some ''theme'')
      (state_of (run (loadCSS ''./a.css'' (Some ''theme'') (blank ''/'')) [ErrorEv])) =
     Done () (state_of (run (loadCSS ''./a.css'' (Some ''theme'') (blank ''/'')) [ErrorEv])) \<and>
   head (state_of (run (loadCSS ''./a.css'' (Some ''theme'') (blank ''/'')) [ErrorEv])) =
     [new_link ''./a.css'' (Some ''theme'')] \<and>
   length (elements_with_id ''theme''
     (state_of (run (loadCSS ''./a.css'' (Some ''theme'') (blank ''/'')) [ErrorEv]))) = 1"
proof -
  have h: "''theme'' \<noteq> []" by simp
  have e: "elements_with_id ''theme'' (blank ''/'') = []"
    by (simp add: elements_with_id_def blank_def)
  have g: "getElementById (blank ''/'') ''theme'' = None"
    by (simp add: getElementById_def blank_def)
  have b: "head (blank ''/'') = []" by (simp add: blank_def)
  show ?thesis
    using load_same_id_once [OF h, of "blank ''/''" "''./a.css''" "''./b.css''" "[ErrorEv]"]
    by (simp add: e g b)
qed

section \<open>Facts about autoLoadPageCSS\<close>

lemma js_split_nonempty: "js_split c s \<noteq> []"
  by (induction s) (simp_all split: list.splits)

lemma pageName_of_defined:
  "pageName_of path = Some (js_replace ''.html'' [] (last (js_split CHR ''/'' path)))"
  by (simp add: pageName_of_def js_pop_def js_split_nonempty)

lemma autoLoadPageCSS_unfold:
  "pageName_of (pathname d) = Some pageName \<Longrightarrow>
   autoLoadPageCSS d =
     (if pageName \<noteq> [] then
        try_catch
          (await (loadCSS (''./'' @ pageName @ ''.css'') (Some (''page-css-'' @ pageName)) d)
             (\<lambda>_ d'. Done ()
                (console_log [S (''Page-specific CSS loaded for: '' @ pageName)] d')))
          (\<lambda>error d'. Done ()
             (console_log [S (''No page-specific CSS found for: '' @ pageName)] d'))
      else Done () d)"
  by (simp add: autoLoadPageCSS_def)

lemma safe_autoLoadPageCSS: "safe (autoLoadPageCSS d)"
  using pageName_of_defined [of "pathname d"]
  by (simp add: autoLoadPageCSS_unfold safe_try_catch)

lemma within_loadCSS: "within (loadCSS p i d) 1"
  by (simp add: loadCSS_def onload_def onerror_def split: event.splits)

lemma within_autoLoadPageCSS: "within (autoLoadPageCSS d) 1"
proof -
  obtain n where n: "pageName_of (pathname d) = Some n"
    using pageName_of_defined by blast
  show ?thesis
  proof (cases "n = []")
    case True
    with n show ?thesis by (simp add: autoLoadPageCSS_unfold)
  next
    case False
    have "within (try_catch
          (await (loadCSS (''./'' @ n @ ''.css'') (Some (''page-css-'' @ n)) d)
             (\<lambda>_ d'. Done () (console_log [S (''Page-specific CSS loaded for: '' @ n)] d')))
          (\<lambda>error d'. Done () (console_log [S (''No page-specific CSS found for: '' @ n)] d')))
        (1 + 0 + 0)"
      by (intro within_try_catch within_await within_loadCSS) simp_all
    with n False show ?thesis by (simp add: autoLoadPageCSS_unfold)
  qed
qed

text \<open>
  Claim C6. When the page name derived from the path is empty, \<open>autoLoadPageCSS\<close> is
  fulfilled at once and leaves the state as it was: \<open>loadCSS\<close> is not called, no element is
  created or appended, nothing is logged, and no event is waited for.
\<close>

theorem autoLoadPageCSS_empty_name:
  "pageName_of (pathname d) = Some [] \<Longrightarrow>
     autoLoadPageCSS d = Done () d \<and> run (autoLoadPageCSS d) evs = Done () d"
  by (simp add: autoLoadPageCSS_unfold)

text \<open>Witness for C6: the path \<^verbatim>\<open>/\<close>.\<close>

theorem autoLoadPageCSS_empty_name_witness:
  "pageName_of (pathname (blank ''/'')) = Some [] \<and>
   autoLoadPageCSS (blank ''/'') = Done () (blank ''/'') \<and>
   run (autoLoadPageCSS (blank ''/'')) [LoadEv] = Done () (blank ''/'')"
proof -
  have h: "pageName_of (pathname (blank ''/'')) = Some []"
    by (simp add: blank_def pageName_of_def js_pop_def)
  show ?thesis
    using h autoLoadPageCSS_empty_name [OF h, of "[LoadEv]"] by simp
qed

text \<open>
  The example of the specification: at \<^verbatim>\<open>/foo/bar/dashboard.html\<close> the resource
  \<^verbatim>\<open>./dashboard.css\<close> is attempted with id \<^verbatim>\<open>page-css-dashboard\<close>.
\<close>

lemma autoLoadPageCSS_dashboard:
  "pageName_of ''/foo/bar/dashboard.html'' = Some ''dashboard'' \<and>
   head (state_of (autoLoadPageCSS (blank ''/foo/bar/dashboard.html''))) =
     [\<lparr>el_tag = ''link'', el_rel = ''stylesheet'', el_type = ''text/css'',
       el_href = ''./dashboard.css'', el_id = ''page-css-dashboard''\<rparr>]"
proof -
  have n: "pageName_of ''/foo/bar/dashboard.html'' = Some ''dashboard''"
    by (simp add: pageName_of_def js_pop_def)
  then have "pageName_of (pathname (blank ''/foo/bar/dashboard.html'')) = Some ''dashboard''"
    by (simp add: blank_def)
  then show ?thesis
    by (simp add: n autoLoadPageCSS_unfold loadCSS_def already_loaded_def getElementById_def
        blank_def appendChild_def new_link_def createElement_def)
qed

text \<open>
  Claim C2 at the path \<^verbatim>\<open>/intro.html-basics.html\<close>. \<^verbatim>\<open>replace('.html', '')\<close> removes the
  first occurrence of \<^verbatim>\<open>.html\<close>, not the suffix: the script derives the page name
  \<^verbatim>\<open>intro-basics.html\<close> and attempts \<^verbatim>\<open>./intro-basics.html.css\<close>, where stripping the
  suffix gives \<^verbatim>\<open>intro.html-basics\<close>.
\<close>

theorem autoLoadPageCSS_html_inside_name:
  "pageName_of ''/intro.html-basics.html'' = Some ''intro-basics.html'' \<and>
   strip_html_suffix (last (js_split CHR ''/'' ''/intro.html-basics.html'')) = ''intro.html-basics'' \<and>
   head (state_of (autoLoadPageCSS (blank ''/intro.html-basics.html''))) =
     [\<lparr>el_tag = ''link'', el_rel = ''stylesheet'', el_type = ''text/css'',
       el_href = ''./intro-basics.html.css'', el_id = ''page-css-intro-basics.html''\<rparr>]"
proof -
  have n: "pageName_of ''/intro.html-basics.html'' = Some ''intro-basics.html''"
    by (simp add: pageName_of_def js_pop_def)
  then have "pageName_of (pathname (blank ''/intro.html-basics.html'')) = Some ''intro-basics.html''"
    by (simp add: blank_def)
  then have "head (state_of (autoLoadPageCSS (blank ''/intro.html-basics.html''))) =
     [\<lparr>el_tag = ''link'', el_rel = ''stylesheet'', el_type = ''text/css'',
       el_href = ''./intro-basics.html.css'', el_id = ''page-css-intro-basics.html''\<rparr>]"
    by (simp add: autoLoadPageCSS_unfold loadCSS_def already_loaded_def getElementById_def
        blank_def appendChild_def new_link_def createElement_def)
  moreover have "strip_html_suffix (last (js_split CHR ''/'' ''/intro.html-basics.html'')) = ''intro.html-basics''"
    by (simp add: strip_html_suffix_def suffix_def)
  ultimately show ?thesis using n by simp
qed

section \<open>Facts about loadGenericCSS\<close>

lemma generic_body_present:
  "already_loaded (Some (generic_id i)) d \<Longrightarrow>
   generic_body cssFile i d =
     Done Break (console_log [S (''Generic CSS loaded: '' @ cssFile)] d)"
  by (simp add: generic_body_def generic_id_def loadCSS_def)

lemma generic_body_absent:
  assumes "\<not> already_loaded (Some (generic_id i)) d"
  shows "is_Suspend (generic_body cssFile i d)"
    and "state_of (generic_body cssFile i d) = appendChild (generic_link cssFile i) d"
    and "waits_on (generic_body cssFile i d) = Some (length (head d))"
    and "run (generic_body cssFile i d) (LoadEv # evs) =
           Done Break (console_log [S (''Generic CSS loaded: '' @ cssFile)]
             (console_log [S ''CSS loaded successfully:'', S (''./'' @ cssFile)]
               (appendChild (generic_link cssFile i) d)))"
    and "run (generic_body cssFile i d) (ErrorEv # evs) =
           Done Continue (console_warn [S ''Failed to load CSS:'', S (''./'' @ cssFile)]
             (appendChild (generic_link cssFile i) d))"
    and "unused (generic_body cssFile i d) (ev # evs) = evs"
  using assms
  by (cases ev; simp add: generic_body_def generic_id_def generic_link_def loadCSS_def
      onload_def onerror_def)+

lemma safe_generic_body: "safe (generic_body cssFile i d)"
  by (simp add: generic_body_def safe_try_catch)

lemma within_generic_body: "within (generic_body cssFile i d) 1"
proof -
  have "within (generic_body cssFile i d) (1 + 0 + 0)"
    unfolding generic_body_def
    by (intro within_try_catch within_await within_loadCSS) simp_all
  then show ?thesis by simp
qed

lemma safe_generic_loop: "safe (generic_loop files i d)"
proof (induction files arbitrary: i d)
  case Nil
  show ?case by simp
next
  case (Cons cssFile rest)
  show ?case
    by (simp add: safe_await safe_generic_body Cons.IH split: loop_exit.splits)
qed

lemma within_generic_loop: "within (generic_loop files i d) (length files)"
proof (induction files arbitrary: i d)
  case Nil
  show ?case by simp
next
  case (Cons cssFile rest)
  have "within (generic_loop (cssFile # rest) i d) (1 + length rest)"
    unfolding generic_loop.simps
    by (intro within_await within_generic_body) (simp add: Cons.IH split: loop_exit.splits)
  then show ?case by simp
qed

lemma run_generic_loop_present:
  "already_loaded (Some (generic_id i)) d \<Longrightarrow>
   run (generic_loop (cssFile # rest) i d) evs =
     Done () (console_log [S (''Generic CSS loaded: '' @ cssFile)] d)"
  by (simp add: generic_body_present)

lemma run_generic_loop_absent:
  assumes "\<not> already_loaded (Some (generic_id i)) d"
  shows "is_Suspend (generic_loop (cssFile # rest) i d)"
    and "state_of (generic_loop (cssFile # rest) i d) = appendChild (generic_link cssFile i) d"
    and "run (generic_loop (cssFile # rest) i d) (LoadEv # evs) =
           Done () (console_log [S (''Generic CSS loaded: '' @ cssFile)]
             (console_log [S ''CSS loaded successfully:'', S (''./'' @ cssFile)]
               (appendChild (generic_link cssFile i) d)))"
    and "run (generic_loop (cssFile # rest) i d) (ErrorEv # evs) =
           run (generic_loop rest (Suc i)
                  (console_warn [S ''Failed to load CSS:'', S (''./'' @ cssFile)]
                     (appendChild (generic_link cssFile i) d))) evs"
proof -
  note b = generic_body_absent [OF assms, of cssFile]
  show "is_Suspend (generic_loop (cssFile # rest) i d)"
    using b(1) by (cases "generic_body cssFile i d") simp_all
  show "state_of (generic_loop (cssFile # rest) i d) = appendChild (generic_link cssFile i) d"
    using b(1,2) by (cases "generic_body cssFile i d") simp_all
  show "run (generic_loop (cssFile # rest) i d) (LoadEv # evs) =
           Done () (console_log [S (''Generic CSS loaded: '' @ cssFile)]
             (console_log [S ''CSS loaded successfully:'', S (''./'' @ cssFile)]
               (appendChild (generic_link cssFile i) d)))"
    unfolding generic_loop.simps run_await by (simp add: b(4))
  show "run (generic_loop (cssFile # rest) i d) (ErrorEv # evs) =
           run (generic_loop rest (Suc i)
                  (console_warn [S ''Failed to load CSS:'', S (''./'' @ cssFile)]
                     (appendChild (generic_link cssFile i) d))) evs"
    unfolding generic_loop.simps run_await by (simp add: b(5,6))
qed

lemma not_Suspend_safe_Done: "safe s \<Longrightarrow> \<not> is_Suspend s \<Longrightarrow> is_Done s"
  by (cases s) simp_all

text \<open>
  Claim C3 as stated fails where the only candidate fails to load: \<open>loadGenericCSS\<close> is
  fulfilled, but the link element it appended for \<^verbatim>\<open>./style.css\<close> is still in the head,
  so one element has been inserted, not zero.
\<close>

theorem loadGenericCSS_failed_link_stays_counterexample:
  "is_Done (run (loadGenericCSS (blank ''/'')) [ErrorEv]) \<and>
   head (state_of (run (loadGenericCSS (blank ''/'')) [ErrorEv])) =
     [\<lparr>el_tag = ''link'', el_rel = ''stylesheet'', el_type = ''text/css'',
       el_href = ''./style.css'', el_id = ''generic-css-0''\<rparr>] \<and>
   length (head (state_of (run (loadGenericCSS (blank ''/'')) [ErrorEv]))) \<noteq> 0"
proof -
  have a: "\<not> already_loaded (Some (generic_id 0)) (blank ''/'')"
    by (simp add: already_loaded_def getElementById_def blank_def)
  have "run (loadGenericCSS (blank ''/'')) [ErrorEv] =
      Done () (console_warn [S ''Failed to load CSS:'', S ''./style.css'']
                 (appendChild (generic_link ''style.css'' 0) (blank ''/'')))"
    unfolding loadGenericCSS_def commonCSSFiles_def
    by (simp only: run_generic_loop_absent(4) [OF a]) simp
  moreover have "generic_link ''style.css'' 0 =
      \<lparr>el_tag = ''link'', el_rel = ''stylesheet'', el_type = ''text/css'',
        el_href = ''./style.css'', el_id = ''generic-css-0''\<rparr>"
    by (simp add: generic_link_def generic_id_def new_link_def createElement_def
        string_of_nat.simps)
  ultimately show ?thesis
    by (simp add: console_warn_def appendChild_def blank_def)
qed

text \<open>
  Claim C3, amended. \<open>loadGenericCSS\<close> runs the loop over its list from index 0. For any
  list of candidates the loop never ends in a rejection, and it is fulfilled once an event
  has arrived for every candidate. It takes the candidates in list order, one at a time:
  an empty list is fulfilled at once; a first candidate whose id is already in the document
  counts as loaded and ends the loop; otherwise only the first candidate's element is
  appended and waited on, its load event ends the loop with no later candidate attempted,
  and its error event moves on to the rest of the list, the failed element staying in the
  head.
\<close>

theorem generic_loop_in_order:
  "loadGenericCSS d = generic_loop [''style.css''] 0 d \<and>
   \<not> is_Raise (run (generic_loop files i d) evs) \<and>
   (length files \<le> length evs \<longrightarrow> is_Done (run (generic_loop files i d) evs)) \<and>
   generic_loop [] i d = Done () d \<and>
   (already_loaded (Some (generic_id i)) d \<longrightarrow>
      run (generic_loop (cssFile # rest) i d) evs =
        Done () (console_log [S (''Generic CSS loaded: '' @ cssFile)] d)) \<and>
   (\<not> already_loaded (Some (generic_id i)) d \<longrightarrow>
      is_Suspend (generic_loop (cssFile # rest) i d) \<and>
      state_of (generic_loop (cssFile # rest) i d) = appendChild (generic_link cssFile i) d \<and>
      run (generic_loop (cssFile # rest) i d) (LoadEv # evs) =
        Done () (console_log [S (''Generic CSS loaded: '' @ cssFile)]
          (console_log [S ''CSS loaded successfully:'', S (''./'' @ cssFile)]
            (appendChild (generic_link cssFile i) d))) \<and>
      run (generic_loop (cssFile # rest) i d) (ErrorEv # evs) =
        run (generic_loop rest (Suc i)
               (console_warn [S ''Failed to load CSS:'', S (''./'' @ cssFile)]
                  (appendChild (generic_link cssFile i) d))) evs)"
proof -
  have s: "safe (run (generic_loop files i d) evs)"
    by (rule safe_run) (rule safe_generic_loop)
  then have 1: "\<not> is_Raise (run (generic_loop files i d) evs)"
    by (rule safe_not_Raise)
  have 2: "length files \<le> length evs \<longrightarrow> is_Done (run (generic_loop files i d) evs)"
    using within_run [OF within_generic_loop] s by (blast intro: not_Suspend_safe_Done)
  have 3: "generic_loop [] i d = Done () d \<and> loadGenericCSS d = generic_loop [''style.css''] 0 d"
    by (simp add: loadGenericCSS_def commonCSSFiles_def)
  show ?thesis
  proof (cases "already_loaded (Some (generic_id i)) d")
    case True
    with 1 2 3 run_generic_loop_present [OF True] show ?thesis by simp
  next
    case False
    with 1 2 3 run_generic_loop_absent [OF False] show ?thesis by simp
  qed
qed

text \<open>
  Witness for C3: two candidates on an empty document, the first failing and the second
  loading; both elements are in the head afterwards.
\<close>

theorem generic_loop_in_order_witness:
  "length [''style.css'', ''main.css''] \<le> length [ErrorEv, LoadEv] \<and>
   \<not> already_loaded (Some (generic_id 0)) (blank ''/'') \<and>
   is_Done (run (generic_loop [''style.css'', ''main.css''] 0 (blank ''/'')) [ErrorEv, LoadEv]) \<and>
   state_of (generic_loop [''style.css'', ''main.css''] 0 (blank ''/'')) =
     appendChild (generic_link ''style.css'' 0) (blank ''/'') \<and>
   run (generic_loop [''style.css'', ''main.css''] 0 (blank ''/'')) [ErrorEv, LoadEv] =
     run (generic_loop [''main.css''] 1
            (console_warn [S ''Failed to load CSS:'', S ''./style.css'']
               (appendChild (generic_link ''style.css'' 0) (blank ''/'')))) [LoadEv]"
proof -
  have h: "\<not> already_loaded (Some (generic_id 0)) (blank ''/'')"
    by (simp add: already_loaded_def getElementById_def blank_def)
  show ?thesis
    using h generic_loop_in_order [of "blank ''/''" "[''style.css'', ''main.css'']" 0
        "[LoadEv]" "''style.css''" "[''main.css'']"]
      generic_loop_in_order [of "blank ''/''" "[''style.css'', ''main.css'']" 0
        "[ErrorEv, LoadEv]" "''style.css''" "[''main.css'']"]
    by simp
qed

section \<open>The order of the awaited steps\<close>

lemma unused_await:
  "unused (await s k) evs =
     (case run s evs of
        Done a d \<Rightarrow> unused (k a d) (unused s evs)
      | Raise e d \<Rightarrow> unused s evs
      | Suspend n h d \<Rightarrow> unused s evs)"
proof (induction s arbitrary: evs rule: step_induct)
  case (Suspend n h d)
  then show ?case by (cases evs) (simp_all split: step.splits)
qed simp_all

lemma unused_try_catch:
  "unused (try_catch s g) evs =
     (case run s evs of
        Done a d \<Rightarrow> unused s evs
      | Raise e d \<Rightarrow> unused (g e d) (unused s evs)
      | Suspend n h d \<Rightarrow> unused s evs)"
proof (induction s arbitrary: evs rule: step_induct)
  case (Suspend n h d)
  then show ?case by (cases evs) (simp_all split: step.splits)
qed simp_all

lemma run_await_pending:
  "is_Suspend (run s evs) \<Longrightarrow>
     is_Suspend (run (await s k) evs) \<and>
     state_of (run (await s k) evs) = state_of (run s evs) \<and>
     waits_on (run (await s k) evs) = waits_on (run s evs)"
  by (cases "run s evs") (simp_all add: run_await)

lemma run_try_catch_pending:
  "is_Suspend (run s evs) \<Longrightarrow>
     is_Suspend (run (try_catch s g) evs) \<and>
     state_of (run (try_catch s g) evs) = state_of (run s evs) \<and>
     waits_on (run (try_catch s g) evs) = waits_on (run s evs)"
  by (cases "run s evs") (simp_all add: run_try_catch)

lemma run_try_await_Done:
  "run s evs = Done a d1 \<Longrightarrow>
     run (try_catch (await s k) g) evs = run (try_catch (k a d1) g) (unused s evs)"
proof (induction s arbitrary: evs rule: step_induct)
  case (Suspend n h d)
  then show ?case by (cases evs) simp_all
qed simp_all

lemma run_generic_body_Raise:
  assumes "run (loadCSS (''./'' @ cssFile) (Some (generic_id i)) d) evs = Raise e d1"
  shows "run (generic_body cssFile i d) evs = Done Continue d1"
    and "unused (generic_body cssFile i d) evs =
           unused (loadCSS (''./'' @ cssFile) (Some (generic_id i)) d) evs"
  using assms
  by (simp_all add: generic_body_def generic_id_def run_try_catch run_await
      unused_try_catch unused_await)

lemma loadAllCSS_pending:
  assumes "is_Suspend (run (loadGenericCSS d) evs)"
  shows "is_Suspend (run (loadAllCSS d) evs) \<and>
      state_of (run (loadAllCSS d) evs) = state_of (run (loadGenericCSS d) evs) \<and>
      waits_on (run (loadAllCSS d) evs) = waits_on (run (loadGenericCSS d) evs)"
proof -
  let ?k = "\<lambda>_ d1. await (autoLoadPageCSS d1)
             (\<lambda>_ d2. Done () (console_log [S ''CSS loading complete''] d2))"
  let ?g = "\<lambda>error d'. Done () (console_error [S ''Error during CSS loading:'', E error] d')"
  note 1 = run_await_pending [OF assms, of ?k]
  from 1 have "is_Suspend (run (await (loadGenericCSS d) ?k) evs)" by simp
  note 2 = run_try_catch_pending [OF this, of ?g]
  from 1 2 show ?thesis unfolding loadAllCSS_def by simp
qed

lemma loadAllCSS_after_generic:
  assumes "run (loadGenericCSS d) evs = Done () d1"
  shows "run (loadAllCSS d) evs =
        run (try_catch
               (await (autoLoadPageCSS d1)
                  (\<lambda>_ d2. Done () (console_log [S ''CSS loading complete''] d2)))
               (\<lambda>error d'. Done ()
                  (console_error [S ''Error during CSS loading:'', E error] d')))
          (unused (loadGenericCSS d) evs)"
  unfolding loadAllCSS_def by (rule run_try_await_Done [OF assms])

lemma generic_loop_pending:
  assumes "is_Suspend (run (loadCSS (''./'' @ cssFile) (Some (generic_id i)) d) evs)"
  shows "is_Suspend (run (generic_loop (cssFile # rest) i d) evs) \<and>
      state_of (run (generic_loop (cssFile # rest) i d) evs) =
        state_of (run (loadCSS (''./'' @ cssFile) (Some (generic_id i)) d) evs) \<and>
      waits_on (run (generic_loop (cssFile # rest) i d) evs) =
        waits_on (run (loadCSS (''./'' @ cssFile) (Some (generic_id i)) d) evs)"
proof -
  let ?k1 = "\<lambda>_ d'. Done Break (console_log [S (''Generic CSS loaded: '' @ cssFile)] d')"
  let ?g = "\<lambda>error d'. Done Continue d'"
  let ?k2 = "\<lambda>x d'. case x of Break \<Rightarrow> Done () d' | Continue \<Rightarrow> generic_loop rest (Suc i) d'"
  let ?l = "loadCSS (''./'' @ cssFile) (Some (generic_id i)) d"
  note 1 = run_await_pending [OF assms, of ?k1]
  from 1 have "is_Suspend (run (await ?l ?k1) evs)" by simp
  note 2 = run_try_catch_pending [OF this, of ?g]
  from 2 have "is_Suspend (run (try_catch (await ?l ?k1) ?g) evs)" by simp
  note 3 = run_await_pending [OF this, of ?k2]
  have "generic_loop (cssFile # rest) i d = await (try_catch (await ?l ?k1) ?g) ?k2"
    by (simp add: generic_body_def generic_id_def)
  with 1 2 3 show ?thesis by simp
qed

lemma generic_loop_after_failure:
  assumes "run (loadCSS (''./'' @ cssFile) (Some (generic_id i)) d) evs = Raise e d1"
  shows "run (generic_loop (cssFile # rest) i d) evs =
        run (generic_loop rest (Suc i) d1)
          (unused (loadCSS (''./'' @ cssFile) (Some (generic_id i)) d) evs)"
proof -
  note b = run_generic_body_Raise [OF assms]
  have "run (generic_loop (cssFile # rest) i d) evs =
      run (generic_loop rest (Suc i) d1) (unused (generic_body cssFile i d) evs)"
    unfolding generic_loop.simps run_await b(1) by simp
  then show ?thesis by (simp only: b(2))
qed

text \<open>
  Claim C8. The two phases of \<open>loadAllCSS\<close>, the sequence that \<open>init\<close> runs, never overlap:
  as long as \<open>loadGenericCSS\<close> is pending, the whole sequence is pending on the same element
  and has done to the browser exactly what \<open>loadGenericCSS\<close> alone has done; once
  \<open>loadGenericCSS\<close> is fulfilled in a state, the sequence goes on as \<open>autoLoadPageCSS\<close> started
  in that state, on the events not yet used. Likewise inside the loop: while the load of a
  candidate is pending the loop has done nothing else, and when it is rejected the loop goes
  on with the rest of the list from the state of the rejection.
\<close>

theorem phases_one_after_the_other:
  "(is_Suspend (run (loadGenericCSS d) evs) \<longrightarrow>
      is_Suspend (run (loadAllCSS d) evs) \<and>
      state_of (run (loadAllCSS d) evs) = state_of (run (loadGenericCSS d) evs) \<and>
      waits_on (run (loadAllCSS d) evs) = waits_on (run (loadGenericCSS d) evs)) \<and>
   (\<forall>d1. run (loadGenericCSS d) evs = Done () d1 \<longrightarrow>
      run (loadAllCSS d) evs =
        run (try_catch
               (await (autoLoadPageCSS d1)
                  (\<lambda>_ d2. Done () (console_log [S ''CSS loading complete''] d2)))
               (\<lambda>error d'. Done ()
                  (console_error [S ''Error during CSS loading:'', E error] d')))
          (unused (loadGenericCSS d) evs)) \<and>
   (is_Suspend (run (loadCSS (''./'' @ cssFile) (Some (generic_id i)) d) evs) \<longrightarrow>
      is_Suspend (run (generic_loop (cssFile # rest) i d) evs) \<and>
      state_of (run (generic_loop (cssFile # rest) i d) evs) =
        state_of (run (loadCSS (''./'' @ cssFile) (Some (generic_id i)) d) evs) \<and>
      waits_on (run (generic_loop (cssFile # rest) i d) evs) =
        waits_on (run (loadCSS (''./'' @ cssFile) (Some (generic_id i)) d) evs)) \<and>
   (\<forall>e d1. run (loadCSS (''./'' @ cssFile) (Some (generic_id i)) d) evs = Raise e d1 \<longrightarrow>
      run (generic_loop (cssFile # rest) i d) evs =
        run (generic_loop rest (Suc i) d1)
          (unused (loadCSS (''./'' @ cssFile) (Some (generic_id i)) d) evs))"
  by (intro conjI allI impI)
    (simp_all only: loadAllCSS_pending loadAllCSS_after_generic generic_loop_pending
      generic_loop_after_failure)

text \<open>
  Witness for C8: on an empty document at \<^verbatim>\<open>/dashboard.html\<close>, before any event and after
  the error event of \<^verbatim>\<open>./style.css\<close>.
\<close>

theorem phases_one_after_the_other_witness:
  "is_Suspend (run (loadGenericCSS (blank ''/dashboard.html'')) []) \<and>
   state_of (run (loadAllCSS (blank ''/dashboard.html'')) []) =
     appendChild (generic_link ''style.css'' 0) (blank ''/dashboard.html'') \<and>
   run (loadGenericCSS (blank ''/dashboard.html'')) [ErrorEv] =
     Done () (console_warn [S ''Failed to load CSS:'', S ''./style.css'']
       (appendChild (generic_link ''style.css'' 0) (blank ''/dashboard.html''))) \<and>
   run (loadAllCSS (blank ''/dashboard.html'')) [ErrorEv] =
     run (try_catch
            (await (autoLoadPageCSS
                      (console_warn [S ''Failed to load CSS:'', S ''./style.css'']
                         (appendChild (generic_link ''style.css'' 0) (blank ''/dashboard.html''))))
               (\<lambda>_ d2. Done () (console_log [S ''CSS loading complete''] d2)))
            (\<lambda>error d'. Done ()
               (console_error [S ''Error during CSS loading:'', E error] d'))) [] \<and>
   is_Suspend (run (loadCSS ''./style.css'' (Some (generic_id 0)) (blank ''/dashboard.html'')) []) \<and>
   state_of (run (generic_loop [''style.css'', ''main.css''] 0 (blank ''/dashboard.html'')) []) =
     appendChild (generic_link ''style.css'' 0) (blank ''/dashboard.html'') \<and>
   run (loadCSS ''./style.css'' (Some (generic_id 0)) (blank ''/dashboard.html'')) [ErrorEv] =
     Raise (Error ''Failed to load CSS: ./style.css'')
       (console_warn [S ''Failed to load CSS:'', S ''./style.css'']
         (appendChild (generic_link ''style.css'' 0) (blank ''/dashboard.html''))) \<and>
   run (generic_loop [''style.css'', ''main.css''] 0 (blank ''/dashboard.html'')) [ErrorEv] =
     run (generic_loop [''main.css''] 1
            (console_warn [S ''Failed to load CSS:'', S ''./style.css'']
              (appendChild (generic_link ''style.css'' 0) (blank ''/dashboard.html'')))) []"
proof -
  let ?B = "blank ''/dashboard.html''"
  let ?D = "console_warn [S ''Failed to load CSS:'', S ''./style.css'']
              (appendChild (generic_link ''style.css'' 0) ?B)"
  have h: "\<not> already_loaded (Some (generic_id 0)) ?B"
    by (simp add: already_loaded_def getElementById_def blank_def)
  have g0: "is_Suspend (run (loadGenericCSS ?B) [])"
    and g0s: "state_of (run (loadGenericCSS ?B) []) = appendChild (generic_link ''style.css'' 0) ?B"
    and g1: "run (loadGenericCSS ?B) [ErrorEv] = Done () ?D"
    using run_generic_loop_absent [OF h]
    by (simp_all add: loadGenericCSS_def commonCSSFiles_def)
  have l0: "is_Suspend (run (loadCSS ''./style.css'' (Some (generic_id 0)) ?B) [])"
    and l0s: "state_of (run (loadCSS ''./style.css'' (Some (generic_id 0)) ?B) []) =
        appendChild (generic_link ''style.css'' 0) ?B"
    and l1: "run (loadCSS ''./style.css'' (Some (generic_id 0)) ?B) [ErrorEv] =
        Raise (Error ''Failed to load CSS: ./style.css'') ?D"
    using h by (simp_all add: loadCSS_def onerror_def generic_link_def)
  have u: "unused (loadGenericCSS ?B) [ErrorEv] = []"
    "unused (loadCSS ''./style.css'' (Some (generic_id 0)) ?B) [ErrorEv] = []"
    using h
    by (simp_all add: loadGenericCSS_def commonCSSFiles_def unused_await loadCSS_def
        generic_body_absent(5,6) [OF h])
  show ?thesis
    using g0 g0s g1 l0 l0s l1 u
      phases_one_after_the_other [of ?B "[]" "''style.css''" 0 "[''main.css'']"]
      phases_one_after_the_other [of ?B "[ErrorEv]" "''style.css''" 0 "[''main.css'']"]
    by simp
qed

section \<open>What the module leaves untouched\<close>

lemma extends_refl: "extends d d"
  by (simp add: extends_def)

lemma extends_appendChild: "extends d0 d \<Longrightarrow> extends d0 (appendChild e d)"
  by (simp add: extends_def appendChild_def)

lemma extends_console_log: "extends d0 d \<Longrightarrow> extends d0 (console_log args d)"
  by (simp add: extends_def console_log_def)

lemma extends_console_warn: "extends d0 d \<Longrightarrow> extends d0 (console_warn args d)"
  by (simp add: extends_def console_warn_def)

lemma extends_console_error: "extends d0 d \<Longrightarrow> extends d0 (console_error args d)"
  by (simp add: extends_def console_error_def)

lemmas extends_intros =
  extends_appendChild extends_console_log extends_console_warn extends_console_error

lemma always_loadCSS: "extends d0 d \<Longrightarrow> always (extends d0) (loadCSS p i d)"
  by (simp add: loadCSS_def onload_def onerror_def extends_intros split: event.splits)

lemma always_autoLoadPageCSS:
  assumes "extends d0 d"
  shows "always (extends d0) (autoLoadPageCSS d)"
proof -
  obtain n where n: "pageName_of (pathname d) = Some n"
    using pageName_of_defined by blast
  show ?thesis
  proof (cases "n = []")
    case True
    with n assms show ?thesis by (simp add: autoLoadPageCSS_unfold)
  next
    case False
    have "always (extends d0) (try_catch
          (await (loadCSS (''./'' @ n @ ''.css'') (Some (''page-css-'' @ n)) d)
             (\<lambda>_ d'. Done () (console_log [S (''Page-specific CSS loaded for: '' @ n)] d')))
          (\<lambda>error d'. Done () (console_log [S (''No page-specific CSS found for: '' @ n)] d')))"
      by (intro always_try_catch always_await always_loadCSS assms)
        (simp_all add: extends_intros)
    with n False show ?thesis by (simp add: autoLoadPageCSS_unfold)
  qed
qed

lemma always_generic_body:
  "extends d0 d \<Longrightarrow> always (extends d0) (generic_body cssFile i d)"
  unfolding generic_body_def
  by (intro always_try_catch always_await always_loadCSS) (simp_all add: extends_intros)

lemma always_generic_loop:
  "extends d0 d \<Longrightarrow> always (extends d0) (generic_loop files i d)"
proof (induction files arbitrary: i d)
  case Nil
  then show ?case by simp
next
  case (Cons cssFile rest)
  show ?case
    unfolding generic_loop.simps
    by (intro always_await always_generic_body Cons.prems)
      (simp add: Cons.IH split: loop_exit.splits)
qed

lemma always_loadAllCSS:
  "extends d0 d \<Longrightarrow> always (extends d0) (loadAllCSS d)"
  unfolding loadAllCSS_def loadGenericCSS_def
  by (intro always_try_catch always_await always_generic_loop always_autoLoadPageCSS)
    (simp_all add: extends_intros)

lemma extends_run: "always (extends d) s \<Longrightarrow> extends d (state_of (run s evs))"
  by (rule always_now) (rule always_run)

lemma extends_trans: "extends d0 d1 \<Longrightarrow> extends d1 d2 \<Longrightarrow> extends d0 d2"
  by (auto simp: extends_def)

lemma appends_await:
  assumes "extends d0 (state_of s)" and "only_appends s"
    and "\<And>a d. extends d (state_of (k a d)) \<and> only_appends (k a d)"
  shows "extends d0 (state_of (await s k)) \<and> only_appends (await s k)"
  using assms(1,2)
proof (induction s arbitrary: d0 rule: step_induct)
  case (Done a d)
  from assms(3) [of d a] Done.prems(1) show ?case
    by (auto intro: extends_trans)
next
  case (Raise e d)
  then show ?case by simp
next
  case (Suspend n h d)
  have "extends d' (state_of (await (h ev d') k)) \<and> only_appends (await (h ev d') k)" for ev d'
    using Suspend.prems(2) by (intro Suspend.IH) simp_all
  with Suspend.prems(1) show ?case by simp
qed

lemma appends_try_catch:
  assumes "extends d0 (state_of s)" and "only_appends s"
    and "\<And>e d. extends d (state_of (g e d)) \<and> only_appends (g e d)"
  shows "extends d0 (state_of (try_catch s g)) \<and> only_appends (try_catch s g)"
  using assms(1,2)
proof (induction s arbitrary: d0 rule: step_induct)
  case (Done a d)
  then show ?case by simp
next
  case (Raise e d)
  from assms(3) [of d e] Raise.prems(1) show ?case
    by (auto intro: extends_trans)
next
  case (Suspend n h d)
  have "extends d' (state_of (try_catch (h ev d') g)) \<and> only_appends (try_catch (h ev d') g)"
    for ev d'
    using Suspend.prems(2) by (intro Suspend.IH) simp_all
  with Suspend.prems(1) show ?case by simp
qed

lemma appends_loadCSS:
  "extends d (state_of (loadCSS p i d)) \<and> only_appends (loadCSS p i d)"
  by (simp add: loadCSS_def onload_def onerror_def extends_refl extends_intros
      split: event.splits)

lemma appends_Done_log:
  "extends d (state_of (Done a (console_log args d))) \<and> only_appends (Done a (console_log args d))"
  by (simp add: extends_refl extends_intros)

lemma appends_autoLoadPageCSS:
  "extends d (state_of (autoLoadPageCSS d)) \<and> only_appends (autoLoadPageCSS d)"
proof -
  obtain n where n: "pageName_of (pathname d) = Some n"
    using pageName_of_defined by blast
  show ?thesis
  proof (cases "n = []")
    case True
    with n show ?thesis by (simp add: autoLoadPageCSS_unfold extends_refl)
  next
    case False
    let ?l = "loadCSS (''./'' @ n @ ''.css'') (Some (''page-css-'' @ n)) d"
    let ?k = "\<lambda>_ d'. Done () (console_log [S (''Page-specific CSS loaded for: '' @ n)] d')"
    let ?g = "\<lambda>error d'. Done () (console_log [S (''No page-specific CSS found for: '' @ n)] d')"
    have 1: "extends d (state_of (await ?l ?k)) \<and> only_appends (await ?l ?k)"
      using appends_loadCSS [of d "''./'' @ n @ ''.css''" "Some (''page-css-'' @ n)"]
      by (intro appends_await) (simp_all add: extends_refl extends_intros)
    have "extends d (state_of (try_catch (await ?l ?k) ?g)) \<and>
        only_appends (try_catch (await ?l ?k) ?g)"
      using 1 by (intro appends_try_catch) (simp_all add: extends_refl extends_intros)
    with n False show ?thesis by (simp add: autoLoadPageCSS_unfold)
  qed
qed

lemma appends_generic_body:
  "extends d (state_of (generic_body cssFile i d)) \<and> only_appends (generic_body cssFile i d)"
proof -
  let ?l = "loadCSS (''./'' @ cssFile) (Some (''generic-css-'' @ string_of_nat i)) d"
  let ?k = "\<lambda>_ d'. Done Break (console_log [S (''Generic CSS loaded: '' @ cssFile)] d')"
  have 1: "extends d (state_of (await ?l ?k)) \<and> only_appends (await ?l ?k)"
    using appends_loadCSS [of d "''./'' @ cssFile" "Some (''generic-css-'' @ string_of_nat i)"]
    by (intro appends_await) (simp_all add: extends_refl extends_intros)
  show ?thesis
    unfolding generic_body_def
    using 1 by (intro appends_try_catch) (simp_all add: extends_refl)
qed

lemma appends_generic_loop:
  "extends d (state_of (generic_loop files i d)) \<and> only_appends (generic_loop files i d)"
proof (induction files arbitrary: i d)
  case Nil
  show ?case by (simp add: extends_refl)
next
  case (Cons cssFile rest)
  have k: "extends d' (state_of (case x of Break \<Rightarrow> Done () d' | Continue \<Rightarrow> generic_loop rest (Suc i) d')) \<and>
      only_appends (case x of Break \<Rightarrow> Done () d' | Continue \<Rightarrow> generic_loop rest (Suc i) d')"
    for x d'
    using Cons.IH [of d' "Suc i"] by (cases x) (simp_all add: extends_refl)
  show ?case
    unfolding generic_loop.simps
    using appends_generic_body [of d cssFile i] k
    by (intro appends_await) simp_all
qed

lemma appends_loadAllCSS:
  "extends d (state_of (loadAllCSS d)) \<and> only_appends (loadAllCSS d)"
proof -
  let ?k2 = "\<lambda>_ d2. Done () (console_log [S ''CSS loading complete''] d2)"
  let ?k1 = "\<lambda>_ d1. await (autoLoadPageCSS d1) ?k2"
  have k1: "extends d1 (state_of (?k1 a d1)) \<and> only_appends (?k1 a d1)" for a d1
    by (rule appends_await)
      (simp_all add: appends_autoLoadPageCSS extends_refl extends_intros)
  have 1: "extends d (state_of (await (loadGenericCSS d) ?k1)) \<and>
      only_appends (await (loadGenericCSS d) ?k1)"
    unfolding loadGenericCSS_def
    by (rule appends_await) (simp_all only: appends_generic_loop k1 simp_thms)
  show ?thesis
    unfolding loadAllCSS_def
    by (rule appends_try_catch) (simp_all add: 1 extends_refl extends_intros)
qed

lemma only_appends_run:
  "only_appends s \<Longrightarrow> extends (state_of s) (state_of (run s evs)) \<and> only_appends (run s evs)"
proof (induction s arbitrary: evs rule: step_induct)
  case (Suspend n h d)
  show ?case
  proof (cases evs)
    case Nil
    with Suspend.prems show ?thesis by (simp add: extends_refl)
  next
    case (Cons ev evs')
    from Suspend.prems have 1: "extends d (state_of (h ev d))" and 2: "only_appends (h ev d)"
      by simp_all
    from Suspend.IH [OF 2, of evs'] 1 Cons show ?thesis
      by (auto intro: extends_trans)
  qed
qed (simp_all add: extends_refl)

lemma run_append: "run s (evs @ evs') = run (run s evs) evs'"
  by (induction s evs rule: run.induct) simp_all

lemma appends_run_more:
  "only_appends s \<Longrightarrow> extends (state_of (run s evs)) (state_of (run s (evs @ evs')))"
  using only_appends_run [of s evs] only_appends_run [of "run s evs" evs']
  by (simp add: run_append)

text \<open>
  Claim C9. A call of \<open>loadCSS\<close> leaves the head it found with the one new link element at
  its end, or exactly as it was when the id is already present, and this whatever events
  arrive afterwards; the rest of the document it leaves alone. Its two handlers change
  nothing but the console of the state they are resumed on, so neither the new element nor
  anything appended in the meantime is removed or altered. The same holds for
  \<open>autoLoadPageCSS\<close>, \<open>loadGenericCSS\<close> and the sequence that \<open>init\<close> runs: up to its
  first await each leaves a state that extends the one it found, every resumption leaves a
  state that extends the one it is resumed on, and so the state after more events extends
  the state after fewer, and every state extends the initial one.
\<close>

theorem module_only_appends:
  "head (state_of (run (loadCSS cssPath id' d) evs)) =
     (if already_loaded id' d then head d else head d @ [new_link cssPath id']) \<and>
   body (state_of (run (loadCSS cssPath id' d) evs)) = body d \<and>
   (already_loaded id' d \<longrightarrow> run (loadCSS cssPath id' d) evs = Done () d) \<and>
   (\<not> already_loaded id' d \<longrightarrow>
      state_of (loadCSS cssPath id' d) = appendChild (new_link cssPath id') d \<and>
      resume_with (loadCSS cssPath id' d) LoadEv d' =
        Done () (console_log [S ''CSS loaded successfully:'', S cssPath] d') \<and>
      resume_with (loadCSS cssPath id' d) ErrorEv d' =
        Raise (Error (''Failed to load CSS: '' @ cssPath))
          (console_warn [S ''Failed to load CSS:'', S cssPath] d')) \<and>
   extends d (state_of (loadCSS cssPath id' d)) \<and> only_appends (loadCSS cssPath id' d) \<and>
   extends d (state_of (autoLoadPageCSS d)) \<and> only_appends (autoLoadPageCSS d) \<and>
   extends d (state_of (loadGenericCSS d)) \<and> only_appends (loadGenericCSS d) \<and>
   extends d (state_of (loadAllCSS d)) \<and> only_appends (loadAllCSS d) \<and>
   extends (state_of (run (loadCSS cssPath id' d) evs))
     (state_of (run (loadCSS cssPath id' d) (evs @ evs'))) \<and>
   extends (state_of (run (autoLoadPageCSS d) evs))
     (state_of (run (autoLoadPageCSS d) (evs @ evs'))) \<and>
   extends (state_of (run (loadGenericCSS d) evs))
     (state_of (run (loadGenericCSS d) (evs @ evs'))) \<and>
   extends (state_of (run (loadAllCSS d) evs))
     (state_of (run (loadAllCSS d) (evs @ evs'))) \<and>
   extends d (state_of (run (loadCSS cssPath id' d) evs)) \<and>
   extends d (state_of (run (autoLoadPageCSS d) evs)) \<and>
   extends d (state_of (run (loadGenericCSS d) evs)) \<and>
   extends d (state_of (run (loadAllCSS d) evs))"
proof -
  have g: "extends d (state_of (loadGenericCSS d)) \<and> only_appends (loadGenericCSS d)"
    unfolding loadGenericCSS_def by (rule appends_generic_loop)
  note l = appends_loadCSS [of d cssPath id']
  note p = appends_autoLoadPageCSS [of d]
  note a = appends_loadAllCSS [of d]
  have from_start: "extends d (state_of (run s evs))"
    if "extends d (state_of s) \<and> only_appends s" for s :: "unit step"
    using that only_appends_run [of s evs] by (blast intro: extends_trans)
  have 1: "head (state_of (run (loadCSS cssPath id' d) evs)) =
      (if already_loaded id' d then head d else head d @ [new_link cssPath id'])"
    by (rule head_run_loadCSS)
  have 2: "body (state_of (run (loadCSS cssPath id' d) evs)) = body d"
    by (rule body_run_loadCSS)
  have 3: "already_loaded id' d \<longrightarrow> run (loadCSS cssPath id' d) evs = Done () d"
    by (simp add: run_loadCSS)
  have 4: "\<not> already_loaded id' d \<longrightarrow>
      state_of (loadCSS cssPath id' d) = appendChild (new_link cssPath id') d \<and>
      resume_with (loadCSS cssPath id' d) LoadEv d' =
        Done () (console_log [S ''CSS loaded successfully:'', S cssPath] d') \<and>
      resume_with (loadCSS cssPath id' d) ErrorEv d' =
        Raise (Error (''Failed to load CSS: '' @ cssPath))
          (console_warn [S ''Failed to load CSS:'', S cssPath] d')"
    by (simp add: loadCSS_def onload_def onerror_def)
  note more = appends_run_more [of _ evs evs']
  from 1 2 3 4 l p g a
    more [of "loadCSS cssPath id' d"] more [of "autoLoadPageCSS d"]
    more [of "loadGenericCSS d"] more [of "loadAllCSS d"]
    from_start [OF l] from_start [OF p] from_start [OF g] from_start [OF a]
  show ?thesis by blast
qed

text \<open>
  Witness for C9: a document that already holds an element with id \<^verbatim>\<open>theme\<close>, and an
  empty one on which another element is appended before the error event arrives.
\<close>

theorem module_only_appends_witness:
  "already_loaded (Some ''theme'')
     ((blank ''/'')\<lparr>body := [(createElement ''div'')\<lparr>el_id := ''theme''\<rparr>]\<rparr>) \<and>
   run (loadCSS ''./a.css'' (Some ''theme'')
     ((blank ''/'')\<lparr>body := [(createElement ''div'')\<lparr>el_id := ''theme''\<rparr>]\<rparr>)) [LoadEv] =
     Done () ((blank ''/'')\<lparr>body := [(createElement ''div'')\<lparr>el_id := ''theme''\<rparr>]\<rparr>) \<and>
   \<not> already_loaded (Some ''theme'') (blank ''/'') \<and>
   head (state_of (run (loadCSS ''./a.css'' (Some ''theme'') (blank ''/'')) [ErrorEv])) =
     [new_link ''./a.css'' (Some ''theme'')] \<and>
   head (state_of (resume_with (loadCSS ''./a.css'' (Some ''theme'') (blank ''/'')) ErrorEv
     (appendChild (new_link ''./b.css'' None)
        (appendChild (new_link ''./a.css'' (Some ''theme'')) (blank ''/''))))) =
     [new_link ''./a.css'' (Some ''theme''), new_link ''./b.css'' None] \<and>
   only_appends (loadAllCSS (blank ''/'')) \<and>
   extends (state_of (run (loadAllCSS (blank ''/'')) [ErrorEv]))
     (state_of (run (loadAllCSS (blank ''/'')) ([ErrorEv] @ [LoadEv])))"
proof -
  let ?D = "(blank ''/'')\<lparr>body := [(createElement ''div'')\<lparr>el_id := ''theme''\<rparr>]\<rparr>"
  let ?B = "blank ''/''"
  let ?L = "appendChild (new_link ''./b.css'' None)
              (appendChild (new_link ''./a.css'' (Some ''theme'')) ?B)"
  have h: "already_loaded (Some ''theme'') ?D"
    by (simp add: already_loaded_def getElementById_def blank_def createElement_def)
  have n: "\<not> already_loaded (Some ''theme'') ?B"
    by (simp add: already_loaded_def getElementById_def blank_def)
  have b: "head ?B = []" by (simp add: blank_def)
  show ?thesis
    using h n b
      module_only_appends [where d = ?D and cssPath = "''./a.css''" and id' = "Some ''theme''"
        and evs = "[LoadEv]"]
      module_only_appends [where d = ?B and cssPath = "''./a.css''" and id' = "Some ''theme''"
        and evs = "[ErrorEv]" and evs' = "[LoadEv]" and d' = ?L]
    by (simp add: appendChild_def console_warn_def)
qed

section \<open>Facts about init\<close>

lemma safe_loadAllCSS: "safe (loadAllCSS d)"
  by (simp add: loadAllCSS_def safe_try_catch)

lemma within_loadAllCSS: "within (loadAllCSS d) 2"
proof -
  have "within (generic_loop commonCSSFiles 0 d) (length commonCSSFiles)"
    by (rule within_generic_loop)
  then have g: "within (loadGenericCSS d) 1"
    by (simp add: loadGenericCSS_def commonCSSFiles_def)
  have "within (loadAllCSS d) (1 + (1 + 0) + 0)"
    unfolding loadAllCSS_def
    by (intro within_try_catch within_await g within_autoLoadPageCSS) simp_all
  then show ?thesis by (simp add: numeral_2_eq_2)
qed

lemma doc_start: "doc (start s p) = state_of s"
  by (cases s) simp_all

lemma listeners_start: "listeners (start s p) = listeners p"
  by (cases s) simp_all

lemma start_safe:
  "safe s \<Longrightarrow> safe_tasks p \<Longrightarrow>
     safe_tasks (start s p) \<and> unhandled (start s p) = unhandled p"
  by (cases s) (simp_all add: safe_tasks_def)

lemma call_listener_safe:
  "safe_tasks p \<Longrightarrow>
     safe_tasks (call_listener p) \<and> unhandled (call_listener p) = unhandled p"
  unfolding call_listener_def by (rule start_safe) (rule safe_loadAllCSS)

lemma call_listeners_safe:
  "safe_tasks p \<Longrightarrow>
     safe_tasks ((call_listener ^^ n) p) \<and> unhandled ((call_listener ^^ n) p) = unhandled p"
  by (induction n) (simp_all add: call_listener_safe)

lemma resume_all_safe:
  "safe_tasks p \<Longrightarrow> list_all (\<lambda>t. \<forall>ev d. safe (snd t ev d)) ts \<Longrightarrow>
     safe_tasks (foldl (resume ev) p ts) \<and> unhandled (foldl (resume ev) p ts) = unhandled p"
proof (induction ts arbitrary: p)
  case Nil
  then show ?case by simp
next
  case (Cons t ts)
  from Cons.prems have "safe (snd t ev (doc p))" by simp
  from start_safe [OF this Cons.prems(1)]
  have "safe_tasks (resume ev p t)" and "unhandled (resume ev p t) = unhandled p"
    by (simp_all add: resume_def)
  with Cons.IH [of "resume ev p t"] Cons.prems(2) show ?case by simp
qed

lemma deliver_safe:
  assumes "safe_tasks p"
  shows "safe_tasks (deliver e p) \<and> unhandled (deliver e p) = unhandled p"
proof (cases e)
  case DOMContentLoaded
  have "safe_tasks (p\<lparr>doc := (doc p)\<lparr>readyState := Interactive\<rparr>\<rparr>)"
    using assms by (simp add: safe_tasks_def)
  from call_listeners_safe [OF this, of "listeners p"] assms DOMContentLoaded
  show ?thesis by simp
next
  case (LinkEvent k ev)
  have 1: "safe_tasks (p\<lparr>tasks := filter (\<lambda>t. fst t \<noteq> k) (tasks p)\<rparr>)"
    using assms by (simp add: safe_tasks_def list_all_iff)
  have 2: "list_all (\<lambda>t. \<forall>ev d. safe (snd t ev d)) (filter (\<lambda>t. fst t = k) (tasks p))"
    using assms by (simp add: safe_tasks_def list_all_iff)
  from resume_all_safe [OF 1 2, of ev] LinkEvent show ?thesis by simp
qed

lemma platform_safe:
  "safe_tasks p \<Longrightarrow>
     safe_tasks (platform pes p) \<and> unhandled (platform pes p) = unhandled p"
proof (induction pes arbitrary: p)
  case Nil
  then show ?case by (simp add: platform_def)
next
  case (Cons e pes)
  from deliver_safe [OF Cons.prems, of e] Cons.IH [of "deliver e p"]
  show ?case by (simp add: platform_def)
qed

lemma init_safe:
  "safe_tasks p \<Longrightarrow> safe_tasks (init p) \<and> unhandled (init p) = unhandled p"
  by (simp add: init_def start_safe safe_loadAllCSS) (simp add: safe_tasks_def)

lemma start_doc_update: "start s (p\<lparr>doc := d\<rparr>) = start s p"
  by (cases s) simp_all

lemma settle_start:
  "tasks p = [] \<Longrightarrow> settle evs (start s p) = start (run s evs) p"
proof (induction evs arbitrary: s)
  case Nil
  then show ?case by simp
next
  case (Cons ev evs)
  show ?case
  proof (cases s)
    case (Suspend n h d)
    have "(p\<lparr>doc := d, tasks := []\<rparr>) = p\<lparr>doc := d\<rparr>"
      using Cons.prems by (cases p) simp
    then have "start (h ev d) (p\<lparr>doc := d, tasks := []\<rparr>) = start (h ev d) p"
      by (simp add: start_doc_update)
    then have "deliver (LinkEvent n ev) (start s p) = start (h ev d) p"
      using Cons.prems Suspend by (simp add: resume_def)
    with Cons.IH [OF Cons.prems, of "h ev d"] Cons.prems Suspend show ?thesis by simp
  qed (simp_all add: Cons.prems)
qed

lemma tasks_start_settled:
  "tasks p = [] \<Longrightarrow> is_Done s \<Longrightarrow> tasks (start s p) = [] \<and> unhandled (start s p) = unhandled p"
  by (cases s) simp_all

lemma loadAllCSS_completes: "2 \<le> length evs \<Longrightarrow> is_Done (run (loadAllCSS d) evs)"
  by (intro not_Suspend_safe_Done safe_run safe_loadAllCSS within_run [OF within_loadAllCSS])

lemma start_listeners_update:
  "start s (p\<lparr>listeners := m\<rparr>) = (start s p)\<lparr>listeners := m\<rparr>"
  by (cases s) simp_all

lemma call_listener_listeners_update:
  "call_listener (p\<lparr>listeners := m\<rparr>) = (call_listener p)\<lparr>listeners := m\<rparr>"
  by (simp add: call_listener_def start_listeners_update)

lemma call_listeners_listeners_update:
  "(call_listener ^^ n) (p\<lparr>listeners := m\<rparr>) = ((call_listener ^^ n) p)\<lparr>listeners := m\<rparr>"
  by (induction n) (simp_all add: call_listener_listeners_update)

lemma readyState_call_listener: "readyState (doc (call_listener p)) = readyState (doc p)"
proof -
  have "extends (doc p) (state_of (loadAllCSS (doc p)))"
    by (intro always_now always_loadAllCSS extends_refl)
  then show ?thesis by (simp add: call_listener_def doc_start extends_def)
qed

lemma readyState_call_listeners:
  "readyState (doc ((call_listener ^^ n) p)) = readyState (doc p)"
  by (induction n) (simp_all add: readyState_call_listener)

lemma init_loading:
  assumes "readyState (doc p) = Loading"
  shows "init p = p\<lparr>listeners := Suc (listeners p)\<rparr>"
    and "deliver DOMContentLoaded (init p) =
           (call_listener (deliver DOMContentLoaded p))\<lparr>listeners := Suc (listeners p)\<rparr>"
    and "deliver DOMContentLoaded (deliver DOMContentLoaded (init p)) =
           deliver DOMContentLoaded (init p)"
    and "tasks p = [] \<Longrightarrow> deliver (LinkEvent k ev) (init p) = init p"
proof -
  show i: "init p = p\<lparr>listeners := Suc (listeners p)\<rparr>"
    using assms by (simp add: init_def)
  let ?q = "p\<lparr>doc := (doc p)\<lparr>readyState := Interactive\<rparr>\<rparr>"
  let ?m = "Suc (listeners p)"
  have q: "deliver DOMContentLoaded p = (call_listener ^^ listeners p) ?q"
    using assms by simp
  have swap: "p\<lparr>listeners := ?m, doc := (doc p)\<lparr>readyState := Interactive\<rparr>\<rparr> =
      ?q\<lparr>listeners := ?m\<rparr>"
    by (cases p) simp
  have "deliver DOMContentLoaded (init p) = (call_listener ^^ ?m) (?q\<lparr>listeners := ?m\<rparr>)"
    using assms by (simp add: i swap)
  also have "\<dots> = ((call_listener ^^ ?m) ?q)\<lparr>listeners := ?m\<rparr>"
    by (rule call_listeners_listeners_update)
  also have "(call_listener ^^ ?m) ?q = call_listener ((call_listener ^^ listeners p) ?q)"
    by simp
  finally show d: "deliver DOMContentLoaded (init p) =
      (call_listener (deliver DOMContentLoaded p))\<lparr>listeners := Suc (listeners p)\<rparr>"
    by (simp only: q)
  have "readyState (doc (deliver DOMContentLoaded p)) = Interactive"
    using assms by (simp add: readyState_call_listeners)
  then have "readyState (doc (deliver DOMContentLoaded (init p))) = Interactive"
    unfolding d by (simp add: readyState_call_listener del: deliver.simps)
  then show "deliver DOMContentLoaded (deliver DOMContentLoaded (init p)) =
      deliver DOMContentLoaded (init p)"
    by (simp add: deliver.simps(1) [of "deliver DOMContentLoaded (init p)"] del: deliver.simps)
  show "deliver (LinkEvent k ev) (init p) = init p" if "tasks p = []"
    using that by (simp add: i)
qed

text \<open>
  Claim C4. No rejection leaves \<open>loadGenericCSS\<close>, \<open>autoLoadPageCSS\<close> or the sequence that
  \<open>init\<close> runs, whatever load and error events arrive, and the sequence is fulfilled once
  two events have arrived (one for each element it can wait on). On the page: after \<open>init\<close>
  no sequence of platform events leaves a rejection unhandled; with the document ready,
  or loading and then ready, two load or error events leave no computation suspended.
\<close>

theorem load_failures_never_escape:
  "\<not> is_Raise (run (loadGenericCSS d) evs) \<and>
   \<not> is_Raise (run (autoLoadPageCSS d) evs) \<and>
   \<not> is_Raise (run (loadAllCSS d) evs) \<and>
   (2 \<le> length evs \<longrightarrow> is_Done (run (loadAllCSS d) evs)) \<and>
   (safe_tasks p \<longrightarrow> unhandled (platform pes (init p)) = unhandled p) \<and>
   (tasks p = [] \<and> readyState (doc p) \<noteq> Loading \<and> 2 \<le> length evs \<longrightarrow>
      tasks (settle evs (init p)) = [] \<and> unhandled (settle evs (init p)) = unhandled p) \<and>
   (tasks p = [] \<and> listeners p = 0 \<and> readyState (doc p) = Loading \<and> 2 \<le> length evs \<longrightarrow>
      tasks (settle evs (deliver DOMContentLoaded (init p))) = [] \<and>
      unhandled (settle evs (deliver DOMContentLoaded (init p))) = unhandled p)"
proof -
  have 1: "\<not> is_Raise (run (loadGenericCSS d) evs)"
    unfolding loadGenericCSS_def by (intro safe_not_Raise safe_run safe_generic_loop)
  have 2: "\<not> is_Raise (run (autoLoadPageCSS d) evs)"
    by (intro safe_not_Raise safe_run safe_autoLoadPageCSS)
  have 3: "\<not> is_Raise (run (loadAllCSS d) evs)"
    by (intro safe_not_Raise safe_run safe_loadAllCSS)
  have 4: "2 \<le> length evs \<longrightarrow> is_Done (run (loadAllCSS d) evs)"
    by (simp add: loadAllCSS_completes)
  have 5: "safe_tasks p \<longrightarrow> unhandled (platform pes (init p)) = unhandled p"
  proof
    assume s: "safe_tasks p"
    from init_safe [OF s] platform_safe [of "init p" pes]
    show "unhandled (platform pes (init p)) = unhandled p" by simp
  qed
  have 6: "tasks p = [] \<and> readyState (doc p) \<noteq> Loading \<and> 2 \<le> length evs \<longrightarrow>
      tasks (settle evs (init p)) = [] \<and> unhandled (settle evs (init p)) = unhandled p"
  proof
    assume a: "tasks p = [] \<and> readyState (doc p) \<noteq> Loading \<and> 2 \<le> length evs"
    then have "settle evs (init p) = start (run (loadAllCSS (doc p)) evs) p"
      by (simp add: init_def settle_start)
    with a tasks_start_settled [of p "run (loadAllCSS (doc p)) evs"]
    show "tasks (settle evs (init p)) = [] \<and> unhandled (settle evs (init p)) = unhandled p"
      by (simp add: loadAllCSS_completes)
  qed
  have 7: "tasks p = [] \<and> listeners p = 0 \<and> readyState (doc p) = Loading \<and> 2 \<le> length evs \<longrightarrow>
      tasks (settle evs (deliver DOMContentLoaded (init p))) = [] \<and>
      unhandled (settle evs (deliver DOMContentLoaded (init p))) = unhandled p"
  proof
    assume a: "tasks p = [] \<and> listeners p = 0 \<and> readyState (doc p) = Loading \<and> 2 \<le> length evs"
    let ?q = "p\<lparr>listeners := Suc 0, doc := (doc p)\<lparr>readyState := Interactive\<rparr>\<rparr>"
    have "deliver DOMContentLoaded (init p) = start (loadAllCSS (doc ?q)) ?q"
      using a by (simp add: init_def call_listener_def)
    moreover have q: "tasks ?q = []" using a by simp
    ultimately have "settle evs (deliver DOMContentLoaded (init p)) =
        start (run (loadAllCSS (doc ?q)) evs) ?q"
      by (simp only: settle_start)
    with a q tasks_start_settled [of ?q "run (loadAllCSS (doc ?q)) evs"]
    show "tasks (settle evs (deliver DOMContentLoaded (init p))) = [] \<and>
      unhandled (settle evs (deliver DOMContentLoaded (init p))) = unhandled p"
      by (simp add: loadAllCSS_completes)
  qed
  from 1 2 3 4 5 6 7 show ?thesis by blast
qed

text \<open>
  Witness for C4: a fresh page at \<^verbatim>\<open>/index.html\<close>, ready or still loading, on which both
  stylesheets fail to load.
\<close>

theorem load_failures_never_escape_witness:
  "safe_tasks (fresh_page (blank ''/index.html'')) \<and>
   unhandled (platform [LinkEvent 0 ErrorEv, LinkEvent 1 ErrorEv]
     (init (fresh_page (blank ''/index.html'')))) = [] \<and>
   tasks (fresh_page (blank ''/index.html'')) = [] \<and>
   readyState (doc (fresh_page (blank ''/index.html''))) \<noteq> Loading \<and>
   2 \<le> length [ErrorEv, ErrorEv] \<and>
   is_Done (run (loadAllCSS (blank ''/index.html'')) [ErrorEv, ErrorEv]) \<and>
   tasks (settle [ErrorEv, ErrorEv] (init (fresh_page (blank ''/index.html'')))) = [] \<and>
   unhandled (settle [ErrorEv, ErrorEv] (init (fresh_page (blank ''/index.html'')))) = [] \<and>
   listeners (fresh_page ((blank ''/index.html'')\<lparr>readyState := Loading\<rparr>)) = 0 \<and>
   readyState (doc (fresh_page ((blank ''/index.html'')\<lparr>readyState := Loading\<rparr>))) = Loading \<and>
   tasks (settle [ErrorEv, ErrorEv] (deliver DOMContentLoaded
     (init (fresh_page ((blank ''/index.html'')\<lparr>readyState := Loading\<rparr>))))) = [] \<and>
   unhandled (settle [ErrorEv, ErrorEv] (deliver DOMContentLoaded
     (init (fresh_page ((blank ''/index.html'')\<lparr>readyState := Loading\<rparr>))))) = []"
proof -
  let ?R = "fresh_page (blank ''/index.html'')"
  let ?L = "fresh_page ((blank ''/index.html'')\<lparr>readyState := Loading\<rparr>)"
  have r: "safe_tasks ?R" "tasks ?R = []" "readyState (doc ?R) \<noteq> Loading" "unhandled ?R = []"
    by (simp_all add: safe_tasks_def fresh_page_def blank_def)
  have l: "tasks ?L = []" "listeners ?L = 0" "readyState (doc ?L) = Loading" "unhandled ?L = []"
    by (simp_all add: fresh_page_def blank_def)
  have n: "2 \<le> length [ErrorEv, ErrorEv]" by simp
  show ?thesis
    using r l n
      load_failures_never_escape [of "blank ''/index.html''" "[ErrorEv, ErrorEv]" ?R
        "[LinkEvent 0 ErrorEv, LinkEvent 1 ErrorEv]"]
      load_failures_never_escape [of "blank ''/index.html''" "[ErrorEv, ErrorEv]" ?L "[]"]
    by (simp del: deliver.simps settle.simps)
qed

lemma loadAllCSS_first_step:
  assumes "\<not> already_loaded (Some (generic_id 0)) d"
  shows "is_Suspend (loadAllCSS d) \<and>
    state_of (loadAllCSS d) = appendChild (generic_link ''style.css'' 0) d"
proof -
  have "is_Suspend (run (loadGenericCSS d) [])"
    and "state_of (run (loadGenericCSS d) []) = appendChild (generic_link ''style.css'' 0) d"
    using run_generic_loop_absent(1,2) [OF assms]
    by (simp_all add: loadGenericCSS_def commonCSSFiles_def)
  with loadAllCSS_pending [of d "[]"] show ?thesis by simp
qed

lemma tasks_start_Suspend: "is_Suspend s \<Longrightarrow> length (tasks (start s p)) = Suc (length (tasks p))"
  by (cases s) simp_all

text \<open>
  Claim C5. With the document past the loading phase, \<open>init\<close> starts the sequence at once:
  the page it returns is the one in which \<open>loadAllCSS\<close> has run up to its first await, and no
  listener is registered. With the document still loading, \<open>init\<close> only registers one
  listener: the browser state, the suspended computations and the unhandled rejections are
  as before, and an element's load or error event does not start the sequence. When
  \<open>DOMContentLoaded\<close> then fires, the sequence is started once more than it would have been
  without this call (once, if nothing else was registered), on the interactive document;
  the ready signal, fired at the end of the loading phase, does nothing a second time.
\<close>

theorem init_now_or_when_ready:
  "(readyState (doc p) \<noteq> Loading \<longrightarrow>
      init p = start (loadAllCSS (doc p)) p \<and>
      doc (init p) = state_of (loadAllCSS (doc p)) \<and>
      listeners (init p) = listeners p) \<and>
   (readyState (doc p) = Loading \<longrightarrow>
      doc (init p) = doc p \<and> tasks (init p) = tasks p \<and>
      unhandled (init p) = unhandled p \<and> listeners (init p) = Suc (listeners p) \<and>
      (tasks p = [] \<longrightarrow> deliver (LinkEvent k ev) (init p) = init p) \<and>
      deliver DOMContentLoaded (init p) =
        (call_listener (deliver DOMContentLoaded p))\<lparr>listeners := Suc (listeners p)\<rparr> \<and>
      (listeners p = 0 \<longrightarrow>
         deliver DOMContentLoaded (init p) =
           start (loadAllCSS ((doc p)\<lparr>readyState := Interactive\<rparr>))
             (p\<lparr>doc := (doc p)\<lparr>readyState := Interactive\<rparr>, listeners := Suc 0\<rparr>)) \<and>
      deliver DOMContentLoaded (deliver DOMContentLoaded (init p)) =
        deliver DOMContentLoaded (init p))"
proof (intro conjI impI)
  assume a: "readyState (doc p) \<noteq> Loading"
  show "init p = start (loadAllCSS (doc p)) p" using a by (simp add: init_def)
  then show "doc (init p) = state_of (loadAllCSS (doc p))" by (simp add: doc_start)
  show "listeners (init p) = listeners p" using a by (simp add: init_def listeners_start)
next
  assume a: "readyState (doc p) = Loading"
  note i = init_loading [OF a]
  show "doc (init p) = doc p" "tasks (init p) = tasks p" "unhandled (init p) = unhandled p"
    "listeners (init p) = Suc (listeners p)"
    by (simp_all add: i(1))
  show "deliver (LinkEvent k ev) (init p) = init p" if "tasks p = []"
    using that by (rule i(4))
  show "deliver DOMContentLoaded (init p) =
        (call_listener (deliver DOMContentLoaded p))\<lparr>listeners := Suc (listeners p)\<rparr>"
    by (rule i(2))
  show "deliver DOMContentLoaded (init p) =
           start (loadAllCSS ((doc p)\<lparr>readyState := Interactive\<rparr>))
             (p\<lparr>doc := (doc p)\<lparr>readyState := Interactive\<rparr>, listeners := Suc 0\<rparr>)"
    if "listeners p = 0"
  proof -
    have "deliver DOMContentLoaded p = p\<lparr>doc := (doc p)\<lparr>readyState := Interactive\<rparr>\<rparr>"
      using a that by simp
    then show ?thesis
      using that
      by (simp add: i(2) call_listener_def start_listeners_update [symmetric]
          del: deliver.simps)
  qed
  show "deliver DOMContentLoaded (deliver DOMContentLoaded (init p)) =
        deliver DOMContentLoaded (init p)"
    by (rule i(3))
qed

text \<open>
  Witness for C5: \<open>init\<close> on a fresh page at \<^verbatim>\<open>/index.html\<close>, once with the document
  complete and once while it is loading.
\<close>

theorem init_now_or_when_ready_witness:
  "readyState (doc (fresh_page (blank ''/index.html''))) \<noteq> Loading \<and>
   head (doc (init (fresh_page (blank ''/index.html'')))) = [generic_link ''style.css'' 0] \<and>
   listeners (init (fresh_page (blank ''/index.html''))) = 0 \<and>
   readyState (doc (fresh_page ((blank ''/index.html'')\<lparr>readyState := Loading\<rparr>))) = Loading \<and>
   tasks (fresh_page ((blank ''/index.html'')\<lparr>readyState := Loading\<rparr>)) = [] \<and>
   listeners (fresh_page ((blank ''/index.html'')\<lparr>readyState := Loading\<rparr>)) = 0 \<and>
   head (doc (init (fresh_page ((blank ''/index.html'')\<lparr>readyState := Loading\<rparr>)))) = [] \<and>
   tasks (init (fresh_page ((blank ''/index.html'')\<lparr>readyState := Loading\<rparr>))) = [] \<and>
   listeners (init (fresh_page ((blank ''/index.html'')\<lparr>readyState := Loading\<rparr>))) = 1 \<and>
   deliver (LinkEvent 0 LoadEv)
       (init (fresh_page ((blank ''/index.html'')\<lparr>readyState := Loading\<rparr>))) =
     init (fresh_page ((blank ''/index.html'')\<lparr>readyState := Loading\<rparr>)) \<and>
   head (doc (deliver DOMContentLoaded
       (init (fresh_page ((blank ''/index.html'')\<lparr>readyState := Loading\<rparr>))))) =
     [generic_link ''style.css'' 0] \<and>
   length (tasks (deliver DOMContentLoaded
       (init (fresh_page ((blank ''/index.html'')\<lparr>readyState := Loading\<rparr>))))) = 1"
proof -
  let ?B = "blank ''/index.html''"
  let ?R = "fresh_page ?B"
  let ?L = "fresh_page (?B\<lparr>readyState := Loading\<rparr>)"
  let ?I = "(doc ?L)\<lparr>readyState := Interactive\<rparr>"
  have r: "readyState (doc ?R) \<noteq> Loading" "listeners ?R = 0" "doc ?R = ?B"
    by (simp_all add: fresh_page_def blank_def)
  have l: "readyState (doc ?L) = Loading" "tasks ?L = []" "listeners ?L = 0"
    "head (doc ?L) = []"
    by (simp_all add: fresh_page_def blank_def)
  have "\<not> already_loaded (Some (generic_id 0)) ?B"
    by (simp add: already_loaded_def getElementById_def blank_def)
  from loadAllCSS_first_step [OF this]
  have b: "is_Suspend (loadAllCSS ?B)" "head (state_of (loadAllCSS ?B)) = [generic_link ''style.css'' 0]"
    by (simp_all add: appendChild_def blank_def)
  have "\<not> already_loaded (Some (generic_id 0)) ?I"
    by (simp add: already_loaded_def getElementById_def blank_def fresh_page_def)
  from loadAllCSS_first_step [OF this]
  have i: "is_Suspend (loadAllCSS ?I)" "head (state_of (loadAllCSS ?I)) = [generic_link ''style.css'' 0]"
    by (simp_all add: appendChild_def blank_def fresh_page_def)
  have t: "length (tasks (start (loadAllCSS ?I) (?L\<lparr>doc := ?I, listeners := Suc 0\<rparr>))) = 1"
    using tasks_start_Suspend [OF i(1), of "?L\<lparr>doc := ?I, listeners := Suc 0\<rparr>"] l(2) by simp
  from r init_now_or_when_ready [of ?R 0 LoadEv]
  have R1: "doc (init ?R) = state_of (loadAllCSS ?B)" "listeners (init ?R) = 0"
    by (simp_all add: doc_start listeners_start del: deliver.simps)
  note T = init_now_or_when_ready [of ?L 0 LoadEv, THEN conjunct2, rule_format, OF l(1)]
  from T l(2,3)
  have L1: "doc (init ?L) = doc ?L" "tasks (init ?L) = tasks ?L"
    "listeners (init ?L) = Suc (listeners ?L)"
    "deliver (LinkEvent 0 LoadEv) (init ?L) = init ?L"
    "deliver DOMContentLoaded (init ?L) =
       start (loadAllCSS ?I) (?L\<lparr>doc := ?I, listeners := Suc 0\<rparr>)"
    by blast+
  have "head (doc (init ?R)) = [generic_link ''style.css'' 0]"
    by (simp only: R1 b)
  moreover have "head (doc (init ?L)) = []"
    by (simp only: L1 l)
  moreover have "head (doc (deliver DOMContentLoaded (init ?L))) = [generic_link ''style.css'' 0]"
    by (simp only: L1 doc_start i)
  moreover have "length (tasks (deliver DOMContentLoaded (init ?L))) = 1"
    by (simp only: L1 t)
  ultimately show ?thesis
    using r(1,2) l(1,2,3) R1(2) L1(2,3,4) by (simp del: deliver.simps)
qed

section \<open>Where the page name is the suffix-stripped segment\<close>

text \<open>
  The page name that the script computes is the segment with its \<^verbatim>\<open>.html\<close> suffix stripped
  exactly when \<^verbatim>\<open>.html\<close> does not occur in the segment before its last five characters;
  and whatever the name is, a non-empty one makes \<open>autoLoadPageCSS\<close> attempt
  \<^verbatim>\<open>./<name>.css\<close> with id \<^verbatim>\<open>page-css-<name>\<close>.
\<close>

lemma strip_html_suffix_Cons:
  assumes "\<not> prefix ''.html'' (x # xs)"
  shows "strip_html_suffix (x # xs) = x # strip_html_suffix xs"
proof (cases "suffix ''.html'' xs")
  case True
  then have len: "5 \<le> length xs" by (auto simp: suffix_def)
  then obtain n where n: "length xs = n + 5"
    by (metis add.commute le_Suc_ex)
  from True have "suffix ''.html'' (x # xs)" by (rule suffix_ConsI)
  with True show ?thesis
    by (simp add: strip_html_suffix_def n)
next
  case False
  have "\<not> suffix ''.html'' (x # xs)"
  proof
    assume "suffix ''.html'' (x # xs)"
    then have "''.html'' = x # xs \<or> suffix ''.html'' xs"
      by (simp add: suffix_Cons)
    with False have "x # xs = ''.html''" by simp
    with assms show False by simp
  qed
  with False show ?thesis by (simp add: strip_html_suffix_def)
qed

lemma js_replace_is_suffix_strip:
  "(\<forall>k. k + 5 < length seg \<longrightarrow> take 5 (drop k seg) \<noteq> ''.html'') \<Longrightarrow>
     js_replace ''.html'' [] seg = strip_html_suffix seg"
proof (induction seg)
  case Nil
  show ?case by (simp add: strip_html_suffix_def)
next
  case (Cons x xs)
  show ?case
  proof (cases "prefix ''.html'' (x # xs)")
    case True
    then have t: "take 5 (x # xs) = ''.html''"
      by (auto simp: prefix_def)
    have "\<not> 5 < length (x # xs)"
    proof
      assume "5 < length (x # xs)"
      then have "0 + 5 < length (x # xs)" by simp
      with Cons.prems have "take 5 (drop 0 (x # xs)) \<noteq> ''.html''" by blast
      with t show False by simp
    qed
    then have "length (x # xs) \<le> 5" by simp
    with t have "x # xs = ''.html''" by (metis take_all)
    then show ?thesis by (simp add: strip_html_suffix_def)
  next
    case False
    have "\<forall>k. k + 5 < length xs \<longrightarrow> take 5 (drop k xs) \<noteq> ''.html''"
    proof (intro allI impI)
      fix k assume "k + 5 < length xs"
      with Cons.prems [rule_format, of "Suc k"] show "take 5 (drop k xs) \<noteq> ''.html''"
        by simp
    qed
    from Cons.IH [OF this]
    have "js_replace ''.html'' [] xs = strip_html_suffix xs" .
    moreover from False
    have "js_replace ''.html'' [] (x # xs) = x # js_replace ''.html'' [] xs"
      by (simp only: js_replace.simps if_False)
    ultimately show ?thesis
      by (simp only: strip_html_suffix_Cons [OF False])
  qed
qed

lemma pageName_of_suffix_strip:
  assumes "\<forall>k. k + 5 < length (last (js_split CHR ''/'' path)) \<longrightarrow>
             take 5 (drop k (last (js_split CHR ''/'' path))) \<noteq> ''.html''"
  shows "pageName_of path = Some (strip_html_suffix (last (js_split CHR ''/'' path)))"
  by (simp only: pageName_of_defined js_replace_is_suffix_strip [OF assms])

lemma autoLoadPageCSS_attempt:
  assumes "pageName_of (pathname d) = Some pageName" and "pageName \<noteq> []"
  shows "already_loaded (Some (''page-css-'' @ pageName)) d \<Longrightarrow>
         autoLoadPageCSS d =
           Done () (console_log [S (''Page-specific CSS loaded for: '' @ pageName)] d)"
    and "\<not> already_loaded (Some (''page-css-'' @ pageName)) d \<Longrightarrow>
         is_Suspend (autoLoadPageCSS d) \<and>
         state_of (autoLoadPageCSS d) =
           appendChild
             \<lparr>el_tag = ''link'', el_rel = ''stylesheet'', el_type = ''text/css'',
               el_href = ''./'' @ pageName @ ''.css'', el_id = ''page-css-'' @ pageName\<rparr> d"
  using assms
  by (simp_all add: autoLoadPageCSS_unfold loadCSS_def new_link_def createElement_def)

end
